theory Spec2Isabelle
  imports Complex_Main "HOL-Library.Multiset"
begin

section \<open>LyricFlow Creator: data model\<close>

text \<open>
  A JavaScript string is a sequence of UTF-16 code units; the model keeps each unit as
  a natural number, so that the white space of \<open>String.prototype.trim\<close> and the
  ASCII classes of the regular expressions are the ones of the language. \<open>js\<close>
  turns an ASCII literal into such a string.

  A JavaScript number is modelled by an exact rational: comparisons of finite doubles
  agree with comparisons of their values, and the arithmetic of the source is kept as
  written, without the rounding of IEEE 754.
\<close>

type_synonym jsstring = "nat list"

definition js :: "string \<Rightarrow> jsstring" where
  "js s = map of_char s"

record LyricLine =
  time :: rat
  "text" :: jsstring

section \<open>The render loop (\<open>animate\<close>): active index\<close>

text \<open>
  The lookup at the head of the scroll logic of \<open>animate\<close>: \<open>activeIndex\<close> starts at
  0, the loop assigns \<open>i\<close> while \<open>time >= lyrics[i].time\<close> and breaks at the first cue
  that is later. \<open>activeIndex_loop\<close> carries the cues not yet visited, the index \<open>i\<close>
  and the current value. \<open>reached\<close> counts the cues the loop passes before it breaks.
\<close>

fun activeIndex_loop :: "LyricLine list \<Rightarrow> rat \<Rightarrow> nat \<Rightarrow> int \<Rightarrow> int" where
  "activeIndex_loop [] t i a = a"
| "activeIndex_loop (c # cs) t i a =
     (if t \<ge> time c then activeIndex_loop cs t (i + 1) (int i) else a)"

definition activeIndex :: "LyricLine list \<Rightarrow> rat \<Rightarrow> int" where
  "activeIndex lyrics t = activeIndex_loop lyrics t 0 0"

definition reached :: "LyricLine list \<Rightarrow> rat \<Rightarrow> nat" where
  "reached cs t = length (takeWhile (\<lambda>c. time c \<le> t) cs)"

section \<open>String primitives of the language\<close>

text \<open>
  \<open>s.split(sep)\<close> for a one-unit separator: the pieces between the separators, in
  order; the result is never empty (\<open>"".split(sep)\<close> is \<open>[""]\<close>). \<open>js_join\<close> is
  \<open>Array.prototype.join\<close> with a one-unit separator.
\<close>

fun js_split :: "nat \<Rightarrow> jsstring \<Rightarrow> jsstring list" where
  "js_split sep [] = [[]]"
| "js_split sep (c # cs) =
     (if c = sep then [] # js_split sep cs
      else (case js_split sep cs of [] \<Rightarrow> [[c]] | w # ws \<Rightarrow> (c # w) # ws))"

fun js_join :: "nat \<Rightarrow> jsstring list \<Rightarrow> jsstring" where
  "js_join sep [] = []"
| "js_join sep [l] = l"
| "js_join sep (l # l' # ls) = l @ [sep] @ js_join sep (l' # ls)"

text \<open>
  \<open>String.prototype.trim\<close> removes the white space and line terminators of ECMAScript
  from both ends: TAB, LF, VT, FF, CR, SP, NBSP, U+1680, U+2000..U+200A, U+2028, U+2029,
  U+202F, U+205F, U+3000 and U+FEFF.
\<close>

definition isWhiteSpace :: "nat \<Rightarrow> bool" where
  "isWhiteSpace c =
     (c = 9 \<or> c = 10 \<or> c = 11 \<or> c = 12 \<or> c = 13 \<or> c = 32 \<or> c = 160 \<or> c = 5760
      \<or> (8192 \<le> c \<and> c \<le> 8202) \<or> c = 8232 \<or> c = 8233 \<or> c = 8239 \<or> c = 8287
      \<or> c = 12288 \<or> c = 65279)"

definition trim :: "jsstring \<Rightarrow> jsstring" where
  "trim s = rev (dropWhile isWhiteSpace (rev (dropWhile isWhiteSpace s)))"

section \<open>The LRC parser (\<open>parseLrc\<close>, index.tsx)\<close>

text \<open>
  \<open>isDigit\<close> is the class \<open>\d\<close> (ASCII digits); \<open>parseInt10\<close> is
  \<open>parseInt(g, 10)\<close> on a captured group, which holds decimal digits only.
\<close>

definition isDigit :: "nat \<Rightarrow> bool" where
  "isDigit c = (48 \<le> c \<and> c \<le> 57)"

definition parseInt10 :: "jsstring \<Rightarrow> nat" where
  "parseInt10 s = foldl (\<lambda>n c. 10 * n + (c - 48)) 0 s"

text \<open>
  The regular expression \<open>/\[(\d{2}):(\d{2})[.:](\d{2,3})\]/\<close> tried at the start of
  a string. \<open>frac_at\<close> is its tail \<open>(\d{2,3})\]\<close>: the greedy quantifier takes three
  digits when a closing bracket follows them, and two digits when the bracket follows
  those. \<open>timeReg_at\<close> returns the three captured groups and the text after the match.
\<close>

definition frac_at :: "jsstring \<Rightarrow> (jsstring \<times> jsstring) option" where
  "frac_at s =
     (case s of
        f1 # f2 # f3 # q # rest \<Rightarrow>
          if isDigit f1 \<and> isDigit f2 \<and> isDigit f3 \<and> q = 93 then Some ([f1, f2, f3], rest)
          else if isDigit f1 \<and> isDigit f2 \<and> f3 = 93 then Some ([f1, f2], q # rest)
          else None
      | [f1, f2, q] \<Rightarrow>
          if isDigit f1 \<and> isDigit f2 \<and> q = 93 then Some ([f1, f2], []) else None
      | _ \<Rightarrow> None)"

definition timeReg_at :: "jsstring \<Rightarrow> (jsstring \<times> jsstring \<times> jsstring \<times> jsstring) option" where
  "timeReg_at s =
     (case s of
        b # m1 # m2 # c # s1 # s2 # p # rest \<Rightarrow>
          if b = 91 \<and> isDigit m1 \<and> isDigit m2 \<and> c = 58 \<and> isDigit s1 \<and> isDigit s2
             \<and> (p = 46 \<or> p = 58)
          then (case frac_at rest of
                  Some (g3, rest') \<Rightarrow> Some ([m1, m2], [s1, s2], g3, rest')
                | None \<Rightarrow> None)
          else None
      | _ \<Rightarrow> None)"

text \<open>
  \<open>timeReg.exec(line)\<close>: the leftmost match, with the text before it, the groups and
  the text after it. \<open>line.replace(timeReg, '')\<close> removes that same first match (the
  expression has no \<open>g\<close> flag).
\<close>

fun timeReg_exec :: "jsstring \<Rightarrow> (jsstring \<times> (jsstring \<times> jsstring \<times> jsstring) \<times> jsstring) option" where
  "timeReg_exec [] = None"
| "timeReg_exec (c # cs) =
     (case timeReg_at (c # cs) of
        Some (g1, g2, g3, rest) \<Rightarrow> Some ([], (g1, g2, g3), rest)
      | None \<Rightarrow>
          (case timeReg_exec cs of
             Some (pre, g, rest) \<Rightarrow> Some (c # pre, g, rest)
           | None \<Rightarrow> None))"

definition replace_timeReg :: "jsstring \<Rightarrow> jsstring" where
  "replace_timeReg line =
     (case timeReg_exec line of None \<Rightarrow> line | Some (pre, g, rest) \<Rightarrow> pre @ rest)"

text \<open>
  The body of the loop over the lines: \<open>result\<close> is the array built so far. The final
  \<open>result.sort((a, b) => a.time - b.time)\<close> is a stable sort by time.
\<close>

definition parseLrc_line :: "jsstring \<Rightarrow> LyricLine list \<Rightarrow> LyricLine list" where
  "parseLrc_line line result =
     (case timeReg_exec line of
        None \<Rightarrow> result
      | Some (pre, (g1, g2, g3), rest) \<Rightarrow>
          (let minutes = parseInt10 g1;
               seconds = parseInt10 g2;
               milliseconds = parseInt10 g3;
               msDivisor = (if length g3 = 3 then 1000 else 100);
               totalSeconds = of_nat minutes * 60 + of_nat seconds
                                + of_nat milliseconds / of_nat msDivisor;
               txt = trim (replace_timeReg line)
           in if txt \<noteq> [] then result @ [\<lparr>time = totalSeconds, text = txt\<rparr>] else result))"

definition parseLrc :: "jsstring \<Rightarrow> LyricLine list" where
  "parseLrc lrcContent =
     sort_key time (foldl (\<lambda>result line. parseLrc_line line result) [] (js_split 10 lrcContent))"

text \<open>
  The words of the specification, for stating the parser's properties: the decimal digits
  of a number as a two- or three-character group, a timestamp tag
  \<open>[MM:SS.xx]\<close> / \<open>[MM:SS:xxx]\<close> (either separator, two or three digits), and a line
  that contains such a tag somewhere.
\<close>

definition two_digits :: "nat \<Rightarrow> jsstring" where
  "two_digits n = [48 + n div 10, 48 + n mod 10]"

definition three_digits :: "nat \<Rightarrow> jsstring" where
  "three_digits n = [48 + n div 100, 48 + (n div 10) mod 10, 48 + n mod 10]"

definition is_tag :: "jsstring \<Rightarrow> bool" where
  "is_tag tg =
     (\<exists>a b c d p fr. tg = [91, a, b, 58, c, d, p] @ fr @ [93]
        \<and> isDigit a \<and> isDigit b \<and> isDigit c \<and> isDigit d \<and> (p = 46 \<or> p = 58)
        \<and> (length fr = 2 \<or> length fr = 3) \<and> list_all isDigit fr)"

definition has_tag :: "jsstring \<Rightarrow> bool" where
  "has_tag line = (\<exists>pre tg rest. line = pre @ tg @ rest \<and> is_tag tg)"

text \<open>
  A line becomes one cue: the loop body appends exactly that cue to whatever has been
  collected; the line alone parses to that cue; and in a file, between two other
  parts, before another part or after one, the line adds exactly that cue to the cues of
  the other parts.
\<close>

definition yields_cue :: "jsstring \<Rightarrow> LyricLine \<Rightarrow> bool" where
  "yields_cue line cue =
     ((\<forall>result. parseLrc_line line result = result @ [cue])
      \<and> parseLrc line = [cue]
      \<and> (\<forall>a b. mset (parseLrc (a @ [10] @ line @ [10] @ b))
                   = mset (parseLrc a) + {#cue#} + mset (parseLrc b))
      \<and> (\<forall>b. mset (parseLrc (line @ [10] @ b)) = {#cue#} + mset (parseLrc b))
      \<and> (\<forall>a. mset (parseLrc (a @ [10] @ line)) = mset (parseLrc a) + {#cue#}))"

section \<open>The render loop (\<open>animate\<close>): scroll interpolation\<close>

text \<open>
  One tick's update of \<open>smoothIndexRef.current\<close> in \<open>animate\<close>, given the
  \<open>activeIndex\<close> just computed (here \<open>newIndex\<close>). The constants 0.001 and 0.1
  are kept as exact decimals.
\<close>

definition scrollStep :: "int \<Rightarrow> rat \<Rightarrow> rat" where
  "scrollStep newIndex smoothIndex =
     (let diff = of_int newIndex - smoothIndex;
          absDiff = \<bar>diff\<bar>
      in if absDiff > 10 then of_int newIndex
         else if absDiff < 1 / 1000 then of_int newIndex
         else smoothIndex + diff * (1 / 10))"

section \<open>The renderer: text wrapping (\<open>getWrappedLines\<close>)\<close>

text \<open>
  \<open>measureText\<close> stands for \<open>ctx.measureText(s).width\<close> under the font that is set
  when \<open>getWrappedLines\<close> is called; it is a parameter, and nothing is assumed of it.
  \<open>wrap_loop\<close> is the loop over \<open>words[1..]\<close> with the array \<open>lines\<close> and the string
  \<open>currentLine\<close> as its state, followed by the final \<open>lines.push(currentLine)\<close>;
  \<open>words[0]\<close> always exists, since \<open>split\<close> never returns an empty array.
\<close>

fun wrap_loop :: "(jsstring \<Rightarrow> rat) \<Rightarrow> rat \<Rightarrow> jsstring list \<Rightarrow> jsstring list \<Rightarrow> jsstring \<Rightarrow> jsstring list" where
  "wrap_loop measureText maxWidth [] lines currentLine = lines @ [currentLine]"
| "wrap_loop measureText maxWidth (word # words) lines currentLine =
     (let width = measureText (currentLine @ [32] @ word)
      in if width < maxWidth
         then wrap_loop measureText maxWidth words lines (currentLine @ [32] @ word)
         else wrap_loop measureText maxWidth words (lines @ [currentLine]) word)"

definition getWrappedLines :: "(jsstring \<Rightarrow> rat) \<Rightarrow> jsstring \<Rightarrow> rat \<Rightarrow> jsstring list" where
  "getWrappedLines measureText txt maxWidth =
     (let words = js_split 32 txt
      in wrap_loop measureText maxWidth (tl words) [] (hd words))"

section \<open>Settings and colours (\<open>types.ts\<close>, the renderer)\<close>

text \<open>
  \<open>AppSettings\<close> as declared in \<open>types.ts\<close>, and the defaults of the application.
\<close>

record AppSettings =
  primaryColor :: jsstring
  secondaryColor :: jsstring
  backgroundColor :: jsstring
  fontSize :: rat
  glowIntensity :: rat
  lyricsXOffset :: rat
  introDuration :: rat
  songTitle :: jsstring
  videoWidth :: rat
  videoHeight :: rat
  bokehEnabled :: bool
  bokehAutoColor :: bool
  bokehColor :: jsstring
  bokehAutoSize :: bool
  bokehScale :: rat

definition DEFAULT_SETTINGS :: AppSettings where
  "DEFAULT_SETTINGS =
     \<lparr>primaryColor = js ''#38bdf8'', secondaryColor = js ''#94a3b8'',
      backgroundColor = js ''#0f172a'', fontSize = 42, glowIntensity = 20,
      lyricsXOffset = 45, introDuration = 3, songTitle = [], videoWidth = 1920,
      videoHeight = 1080, bokehEnabled = False, bokehAutoColor = True,
      bokehColor = js ''#38bdf8'', bokehAutoSize = True, bokehScale = 50\<rparr>"

text \<open>
  \<open>hexToRgb\<close>: the shorthand expression
  \<open>/^#?([a-f\d])([a-f\d])([a-f\d])$/i\<close> rewrites a three-digit colour to six digits
  (dropping the hash sign), then \<open>/^#?([a-f\d]{2})([a-f\d]{2})([a-f\d]{2})$/i\<close> reads
  the three channels with \<open>parseInt(_, 16)\<close>; a string that does not match is white.
\<close>

record rgb =
  rgb_r :: nat
  rgb_g :: nat
  rgb_b :: nat

definition isHexDigit :: "nat \<Rightarrow> bool" where
  "isHexDigit c = ((48 \<le> c \<and> c \<le> 57) \<or> (97 \<le> c \<and> c \<le> 102) \<or> (65 \<le> c \<and> c \<le> 70))"

definition hexVal :: "nat \<Rightarrow> nat" where
  "hexVal c = (if c \<le> 57 then c - 48 else if 97 \<le> c then c - 87 else c - 55)"

definition parseInt16 :: "jsstring \<Rightarrow> nat" where
  "parseInt16 s = foldl (\<lambda>n c. 16 * n + hexVal c) 0 s"

definition strip_hash :: "jsstring \<Rightarrow> jsstring" where
  "strip_hash s = (case s of [] \<Rightarrow> [] | c # cs \<Rightarrow> if c = 35 then cs else s)"

definition shorthand_replace :: "jsstring \<Rightarrow> jsstring" where
  "shorthand_replace hex =
     (case strip_hash hex of
        [r, g, b] \<Rightarrow>
          if isHexDigit r \<and> isHexDigit g \<and> isHexDigit b then [r, r, g, g, b, b] else hex
      | _ \<Rightarrow> hex)"

definition hexToRgb :: "jsstring \<Rightarrow> rgb" where
  "hexToRgb hex0 =
     (let hex = shorthand_replace hex0
      in case strip_hash hex of
           [r1, r2, g1, g2, b1, b2] \<Rightarrow>
             if list_all isHexDigit [r1, r2, g1, g2, b1, b2]
             then \<lparr>rgb_r = parseInt16 [r1, r2], rgb_g = parseInt16 [g1, g2],
                   rgb_b = parseInt16 [b1, b2]\<rparr>
             else \<lparr>rgb_r = 255, rgb_g = 255, rgb_b = 255\<rparr>
         | _ \<Rightarrow> \<lparr>rgb_r = 255, rgb_g = 255, rgb_b = 255\<rparr>)"

text \<open>
  \<open>Math.round\<close> rounds half up. \<open>int_string\<close> is the decimal text of an integer, as
  a template literal renders it.
\<close>

definition Math_round :: "rat \<Rightarrow> int" where
  "Math_round x = \<lfloor>x + 1 / 2\<rfloor>"

fun nat_string :: "nat \<Rightarrow> jsstring" where
  "nat_string n = (if n < 10 then [48 + n] else nat_string (n div 10) @ [48 + n mod 10])"

definition int_string :: "int \<Rightarrow> jsstring" where
  "int_string i = (if i < 0 then 45 # nat_string (nat (- i)) else nat_string (nat i))"

definition interpolateColor :: "jsstring \<Rightarrow> jsstring \<Rightarrow> rat \<Rightarrow> jsstring" where
  "interpolateColor color1 color2 factor =
     (let c1 = hexToRgb color1;
          c2 = hexToRgb color2;
          f = max 0 (min 1 factor);
          r = Math_round (of_nat (rgb_r c1) + (of_nat (rgb_r c2) - of_nat (rgb_r c1)) * f);
          g = Math_round (of_nat (rgb_g c1) + (of_nat (rgb_g c2) - of_nat (rgb_g c1)) * f);
          b = Math_round (of_nat (rgb_b c1) + (of_nat (rgb_b c2) - of_nat (rgb_b c1)) * f)
      in js ''rgb('' @ int_string r @ js '', '' @ int_string g @ js '', '' @ int_string b @ js '')'')"

text \<open>
  The colour of lyric line \<open>i\<close> in the loop of \<open>renderFrame\<close>:
  \<open>distance = i - smoothActiveIndex\<close>, and the factor is \<open>absDist * 1.66\<close>.
\<close>

definition lyric_color :: "AppSettings \<Rightarrow> nat \<Rightarrow> rat \<Rightarrow> jsstring" where
  "lyric_color settings i smoothActiveIndex =
     (let distance = of_nat i - smoothActiveIndex;
          absDist = \<bar>distance\<bar>
      in if absDist < 6 / 10
         then interpolateColor (primaryColor settings) (secondaryColor settings)
                (absDist * (166 / 100))
         else secondaryColor settings)"

text \<open>
  The same rule in the words of the specification, with the normalized factor
  \<open>|distance| * 1.667\<close>, to compare with \<open>lyric_color\<close>.
\<close>

definition lyric_color_spec :: "AppSettings \<Rightarrow> nat \<Rightarrow> rat \<Rightarrow> jsstring" where
  "lyric_color_spec settings i smoothActiveIndex =
     (let distance = of_nat i - smoothActiveIndex;
          absDist = \<bar>distance\<bar>
      in if absDist < 6 / 10
         then interpolateColor (primaryColor settings) (secondaryColor settings)
                (absDist * (1667 / 1000))
         else secondaryColor settings)"

section \<open>The renderer: bokeh particles (\<open>drawBokeh\<close>)\<close>

text \<open>
  \<open>Math.sin\<close> and \<open>Math.cos\<close> are functions of the platform; they are parameters of
  the model (any two functions on numbers), and \<open>Math.PI\<close> is its double value.
  \<open>js_rem\<close> is the remainder operator \<open>%\<close> on numbers: the quotient is truncated
  towards zero.
\<close>

record Math =
  Math_sin :: "rat \<Rightarrow> rat"
  Math_cos :: "rat \<Rightarrow> rat"

definition Math_PI :: rat where
  "Math_PI = 884279719003555 / 281474976710656"

definition js_rem :: "rat \<Rightarrow> rat \<Rightarrow> rat" where
  "js_rem x y = x - y * of_int (if 0 \<le> x / y then \<lfloor>x / y\<rfloor> else \<lceil>x / y\<rceil>)"

text \<open>
  The part of \<open>CanvasRenderingContext2D\<close> that \<open>drawBokeh\<close> touches: the drawing
  state that \<open>save\<close> and \<open>restore\<close> keep on a stack (here the composite
  operation and the fill style), the current path, and the list of fills painted so far,
  each with the path and the drawing state it was painted under. A colour stop
  \<open>hsla(h, s%, l%, a)\<close> or \<open>rgba(r, g, b, a)\<close> is kept as its components.
\<close>

datatype css_color =
  Hsla rat rat rat rat
| Rgba nat nat nat rat

record CanvasGradient =
  grad_x0 :: rat
  grad_y0 :: rat
  grad_r0 :: rat
  grad_x1 :: rat
  grad_y1 :: rat
  grad_r1 :: rat
  colorStops :: "(rat \<times> css_color) list"

datatype fill_style = FillString jsstring | FillGradient CanvasGradient

datatype path_segment = Arc rat rat rat rat rat

record DrawingState =
  globalCompositeOperation :: jsstring
  fillStyle :: fill_style

record Canvas2D =
  drawingState :: DrawingState
  stateStack :: "DrawingState list"
  currentPath :: "path_segment list"
  painted :: "(path_segment list \<times> DrawingState) list"

definition ctx_save :: "Canvas2D \<Rightarrow> Canvas2D" where
  "ctx_save ctx = ctx\<lparr>stateStack := drawingState ctx # stateStack ctx\<rparr>"

definition ctx_restore :: "Canvas2D \<Rightarrow> Canvas2D" where
  "ctx_restore ctx =
     (case stateStack ctx of
        [] \<Rightarrow> ctx
      | st # rest \<Rightarrow> ctx\<lparr>drawingState := st, stateStack := rest\<rparr>)"

definition set_globalCompositeOperation :: "jsstring \<Rightarrow> Canvas2D \<Rightarrow> Canvas2D" where
  "set_globalCompositeOperation v ctx =
     ctx\<lparr>drawingState := (drawingState ctx)\<lparr>globalCompositeOperation := v\<rparr>\<rparr>"

definition set_fillStyle :: "fill_style \<Rightarrow> Canvas2D \<Rightarrow> Canvas2D" where
  "set_fillStyle v ctx = ctx\<lparr>drawingState := (drawingState ctx)\<lparr>fillStyle := v\<rparr>\<rparr>"

definition ctx_beginPath :: "Canvas2D \<Rightarrow> Canvas2D" where
  "ctx_beginPath ctx = ctx\<lparr>currentPath := []\<rparr>"

definition ctx_arc :: "rat \<Rightarrow> rat \<Rightarrow> rat \<Rightarrow> rat \<Rightarrow> rat \<Rightarrow> Canvas2D \<Rightarrow> Canvas2D" where
  "ctx_arc x y radius startAngle endAngle ctx =
     ctx\<lparr>currentPath := currentPath ctx @ [Arc x y radius startAngle endAngle]\<rparr>"

definition ctx_fill :: "Canvas2D \<Rightarrow> Canvas2D" where
  "ctx_fill ctx = ctx\<lparr>painted := painted ctx @ [(currentPath ctx, drawingState ctx)]\<rparr>"

definition createRadialGradient :: "rat \<Rightarrow> rat \<Rightarrow> rat \<Rightarrow> rat \<Rightarrow> rat \<Rightarrow> rat \<Rightarrow> CanvasGradient" where
  "createRadialGradient x0 y0 r0 x1 y1 r1 =
     \<lparr>grad_x0 = x0, grad_y0 = y0, grad_r0 = r0, grad_x1 = x1, grad_y1 = y1, grad_r1 = r1,
      colorStops = []\<rparr>"

definition addColorStop :: "rat \<Rightarrow> css_color \<Rightarrow> CanvasGradient \<Rightarrow> CanvasGradient" where
  "addColorStop offset color gradient =
     gradient\<lparr>colorStops := colorStops gradient @ [(offset, color)]\<rparr>"

text \<open>
  One iteration of the loop of \<open>drawBokeh\<close>: first the particle's position, radius and
  gradient from the index \<open>i\<close> and the arguments, then the calls that paint it.
  With \<open>|sin| \<le> 1\<close> and a scale that is not negative the radius is at least 30, so
  \<open>createRadialGradient\<close> and \<open>arc\<close> never reject it (see
  \<open>bokeh_radius_positive\<close>).
\<close>

record BokehParticle =
  particle_x :: rat
  particle_y :: rat
  particle_radius :: rat
  particle_gradient :: CanvasGradient

definition bokehParticle :: "Math \<Rightarrow> rat \<Rightarrow> rat \<Rightarrow> rat \<Rightarrow> AppSettings \<Rightarrow> nat \<Rightarrow> BokehParticle" where
  "bokehParticle M width height absTime settings i =
     (let randomBase = (i * 1337) mod 1000;
          speed = 2 / 10000 + of_nat (randomBase mod 100) * (1 / 100000);
          t = absTime * speed + of_nat randomBase;
          side = (if i mod 2 = 0 then - 1 else 1);
          xBase = width / 2 + (width / (25 / 10)) * side;
          xOffset = Math_sin M t * (width * (2 / 10));
          x = xBase + xOffset;
          yBase = height * (2 / 10 + (of_nat (randomBase mod 10) / 10) * (8 / 10));
          yOffset = Math_cos M (t * (13 / 10)) * (height * (15 / 100));
          y = yBase + yOffset;
          radius = (if bokehAutoSize settings
                    then 150 + Math_sin M (t * 2) * 80 + of_nat (randomBase mod 100)
                    else (let baseSize = 50 + bokehScale settings * 4
                          in baseSize + Math_sin M (t * 3) * 20));
          gradient = createRadialGradient x y 0 x y radius;
          alphaBase = 15 / 100;
          alpha = alphaBase + Math_sin M (t * (17 / 10)) * (5 / 100);
          gradient' =
            (if bokehAutoColor settings
             then (let hue = js_rem (t * 50 + of_nat randomBase) 360
                   in addColorStop 1 (Hsla hue 80 60 0)
                        (addColorStop 0 (Hsla hue 80 60 alpha) gradient))
             else (let c = hexToRgb (bokehColor settings)
                   in addColorStop 1 (Rgba (rgb_r c) (rgb_g c) (rgb_b c) 0)
                        (addColorStop 0 (Rgba (rgb_r c) (rgb_g c) (rgb_b c) alpha) gradient)))
      in \<lparr>particle_x = x, particle_y = y, particle_radius = radius,
          particle_gradient = gradient'\<rparr>)"

definition drawBokeh_body :: "Math \<Rightarrow> rat \<Rightarrow> rat \<Rightarrow> rat \<Rightarrow> AppSettings \<Rightarrow> nat \<Rightarrow> Canvas2D \<Rightarrow> Canvas2D" where
  "drawBokeh_body M width height absTime settings i ctx =
     (let p = bokehParticle M width height absTime settings i
      in ctx_fill
           (ctx_arc (particle_x p) (particle_y p) (particle_radius p) 0 (Math_PI * 2)
              (ctx_beginPath (set_fillStyle (FillGradient (particle_gradient p)) ctx))))"

definition drawBokeh :: "Math \<Rightarrow> Canvas2D \<Rightarrow> rat \<Rightarrow> rat \<Rightarrow> rat \<Rightarrow> AppSettings \<Rightarrow> Canvas2D" where
  "drawBokeh M ctx width height absTime settings =
     (let particleCount = 15
      in ctx_restore
           (fold (drawBokeh_body M width height absTime settings) [0..<particleCount]
              (set_globalCompositeOperation (js ''screen'') (ctx_save ctx))))"

text \<open>
  What one particle leaves in the list of painted fills: a full circle, filled with the
  particle's gradient under the composite operation \<open>screen\<close>.
\<close>

definition bokeh_spot :: "Math \<Rightarrow> rat \<Rightarrow> rat \<Rightarrow> rat \<Rightarrow> AppSettings \<Rightarrow> nat \<Rightarrow> path_segment list \<times> DrawingState" where
  "bokeh_spot M width height absTime settings i =
     (let p = bokehParticle M width height absTime settings i
      in ([Arc (particle_x p) (particle_y p) (particle_radius p) 0 (Math_PI * 2)],
          \<lparr>globalCompositeOperation = js ''screen'',
           fillStyle = FillGradient (particle_gradient p)\<rparr>))"

section \<open>The recording controller (\<open>App\<close>, index.tsx)\<close>

text \<open>
  The state of the \<open>App\<close> component that the recording logic reads and writes: the
  React state (\<open>media\<close>, \<open>isPlaying\<close>, \<open>isRecording\<close>, \<open>recordingPhase\<close>,
  \<open>downloadUrl\<close>), the refs, and what the platform objects behind the refs are doing.
  \<^item> \<open>canvasRef\<close>, \<open>audioRef\<close>, \<open>audioSourceNodeRef\<close>, \<open>audioDestNodeRef\<close>: whether
    \<open>.current\<close> is set; \<open>audio_currentTime\<close> and \<open>audio_paused\<close> belong to the audio
    element.
  \<^item> \<open>mediaRecorderRef\<close>: \<open>None\<close> for \<open>null\<close>, otherwise the state of the recorder
    it refers to; \<open>orphanRecorders\<close> counts recorders that are still recording and that
    the ref no longer reaches.
  \<^item> \<open>silenceOscRef\<close>: whether \<open>.current\<close> holds a started oscillator;
    \<open>orphanOscillators\<close> counts started oscillators that the ref no longer reaches.
  \<^item> \<open>alerts\<close> and \<open>consoleLog\<close>: the messages shown by \<open>alert\<close> and written by
    \<open>console.error\<close> / \<open>console.warn\<close>.
  A state setter takes effect at the next render; no handler reads a value back after
  setting it, so the model applies the setters in place.
\<close>

datatype RecordingPhase = idle | intro | recording

datatype AudioContextState = suspended | running | closed_context

datatype RecorderState = inactive | active

record AppState =
  media_audioUrl :: "jsstring option"
  media_lyrics :: "LyricLine list"
  isPlaying :: bool
  isRecording :: bool
  recordingPhase :: RecordingPhase
  downloadUrl :: "jsstring option"
  canvasRef :: bool
  audioRef :: bool
  audio_currentTime :: rat
  audio_paused :: bool
  mediaRecorderRef :: "RecorderState option"
  orphanRecorders :: nat
  chunksRef :: nat
  audioContextRef :: "AudioContextState option"
  audioSourceNodeRef :: bool
  audioDestNodeRef :: bool
  silenceOscRef :: bool
  orphanOscillators :: nat
  smoothIndexRef :: rat
  introStartTimeRef :: rat
  alerts :: "jsstring list"
  consoleLog :: "jsstring list"

text \<open>
  What the platform answers during one call of \<open>startRecording\<close>: the state of a newly
  constructed \<open>AudioContext\<close> (\<open>None\<close> when the constructor throws), whether
  \<open>resume\<close> rejects, which of the other calls throw, the text of the thrown error and
  the value of \<open>Date.now()\<close>.
\<close>

record StartEnv =
  env_newAudioContext :: "AudioContextState option"
  env_resumeRejects :: bool
  env_createDestinationThrows :: bool
  env_createSourceThrows :: bool
  env_createOscillatorThrows :: bool
  env_captureStreamThrows :: bool
  env_recorderConstructorThrows :: bool
  env_recorderStartThrows :: bool
  env_errorText :: jsstring
  env_now :: rat

text \<open>
  \<open>startRecording\<close> is an \<open>async\<close> function: its promise is fulfilled
  (\<open>Returned\<close>) or, when an exception escapes, rejected (\<open>Rejected\<close>); either way
  the refs keep what was written before. \<open>startRecording env s\<close> is a call that runs
  from start to end with no other handler in between; the controller's events below
  split the call at its \<open>await\<close>.
\<close>

datatype outcome = Returned AppState | Rejected AppState

fun outcome_state :: "outcome \<Rightarrow> AppState" where
  "outcome_state (Returned s) = s"
| "outcome_state (Rejected s) = s"

fun and_then :: "outcome \<Rightarrow> (AppState \<Rightarrow> outcome) \<Rightarrow> outcome" where
  "and_then (Returned s) f = f s"
| "and_then (Rejected s) f = Rejected s"

text \<open>
  The numbered steps of \<open>startRecording\<close>, in source order: (1) create the audio
  context if there is none, (2) resume it if suspended, where a rejection is caught and
  logged, (3) create the stream destination if there is none, (4) connect the audio
  element once, where an exception is caught and logged, (5) create and start the silent
  oscillator and store it in \<open>silenceOscRef\<close>, (6) capture the canvas stream.
\<close>

definition ensureAudioContext :: "StartEnv \<Rightarrow> AppState \<Rightarrow> outcome" where
  "ensureAudioContext env s =
     (case audioContextRef s of
        Some a \<Rightarrow> Returned s
      | None \<Rightarrow>
          (case env_newAudioContext env of
             None \<Rightarrow> Rejected s
           | Some a \<Rightarrow> Returned (s\<lparr>audioContextRef := Some a\<rparr>)))"

definition resumeIfSuspended :: "StartEnv \<Rightarrow> AppState \<Rightarrow> outcome" where
  "resumeIfSuspended env s =
     (if audioContextRef s = Some suspended
      then (if env_resumeRejects env
            then Returned (s\<lparr>consoleLog := consoleLog s @ [js ''Could not resume audio context'']\<rparr>)
            else Returned (s\<lparr>audioContextRef := Some running\<rparr>))
      else Returned s)"

definition ensureDestination :: "StartEnv \<Rightarrow> AppState \<Rightarrow> outcome" where
  "ensureDestination env s =
     (if \<not> audioDestNodeRef s
      then (if env_createDestinationThrows env then Rejected s
            else Returned (s\<lparr>audioDestNodeRef := True\<rparr>))
      else Returned s)"

definition connectAudioElement :: "StartEnv \<Rightarrow> AppState \<Rightarrow> outcome" where
  "connectAudioElement env s =
     (if \<not> audioSourceNodeRef s \<and> audioRef s
      then (if env_createSourceThrows env
            then Returned (s\<lparr>consoleLog := consoleLog s @ [js ''Audio node already connected or error:'']\<rparr>)
            else Returned (s\<lparr>audioSourceNodeRef := True\<rparr>))
      else Returned s)"

definition startSilence :: "StartEnv \<Rightarrow> AppState \<Rightarrow> outcome" where
  "startSilence env s =
     (if env_createOscillatorThrows env then Rejected s
      else Returned (s\<lparr>orphanOscillators := orphanOscillators s + (if silenceOscRef s then 1 else 0),
                       silenceOscRef := True\<rparr>))"

definition setupStream :: "StartEnv \<Rightarrow> AppState \<Rightarrow> outcome" where
  "setupStream env s = (if env_captureStreamThrows env then Rejected s else Returned s)"

text \<open>
  The \<open>try\<close> block: construct the recorder, store it, clear the chunks, start it, then
  enter the intro phase. The \<open>catch\<close> block (\<open>recordingError\<close>) logs and alerts.
\<close>

definition recordingError :: "StartEnv \<Rightarrow> AppState \<Rightarrow> AppState" where
  "recordingError env s =
     s\<lparr>consoleLog := consoleLog s @ [js ''Recording error''],
       alerts := alerts s @ [js ''Could not start recording. '' @ env_errorText env]\<rparr>"

definition startCapture :: "StartEnv \<Rightarrow> AppState \<Rightarrow> outcome" where
  "startCapture env s =
     (if env_recorderConstructorThrows env then Returned (recordingError env s)
      else
        (let s1 = s\<lparr>orphanRecorders :=
                       orphanRecorders s + (if mediaRecorderRef s = Some active then 1 else 0),
                     mediaRecorderRef := Some inactive,
                     chunksRef := 0\<rparr>
         in if env_recorderStartThrows env then Returned (recordingError env s1)
            else Returned (s1\<lparr>mediaRecorderRef := Some active,
                               isRecording := True,
                               downloadUrl := None,
                               audio_currentTime := 0,
                               audio_paused := True,
                               smoothIndexRef := 0,
                               introStartTimeRef := env_now env,
                               recordingPhase := intro\<rparr>)))"

definition startRecording :: "StartEnv \<Rightarrow> AppState \<Rightarrow> outcome" where
  "startRecording env s =
     (if \<not> canvasRef s \<or> \<not> audioRef s then Returned s
      else and_then (and_then (and_then (and_then (and_then (and_then
             (ensureAudioContext env s)
             (resumeIfSuspended env))
             (ensureDestination env))
             (connectAudioElement env))
             (startSilence env))
             (setupStream env))
             (startCapture env))"

text \<open>
  Steps (1) to (6) alone; \<open>startRecording\<close> is its guard, these steps and the
  \<open>try\<close> block (lemma \<open>startRecording_setup\<close>).
\<close>

definition startSetup :: "StartEnv \<Rightarrow> AppState \<Rightarrow> outcome" where
  "startSetup env s =
     and_then (and_then (and_then (and_then (and_then
       (ensureAudioContext env s)
       (resumeIfSuspended env))
       (ensureDestination env))
       (connectAudioElement env))
       (startSilence env))
       (setupStream env)"

text \<open>
  The call around its \<open>await actx.resume()\<close>. When the context is suspended the
  function yields there, before anything of the \<open>try\<close> block has run;
  \<open>resumeSettled\<close> is what the settled promise leaves (the context running, or the
  logged rejection), and \<open>startRecording_after\<close> is the rest of the function, steps
  (3) to (6) and the \<open>try\<close> block. Lemma \<open>startRecording_split\<close> shows that
  \<open>startRecording\<close> is these parts in sequence.
\<close>

definition resumeSettled :: "StartEnv \<Rightarrow> AppState \<Rightarrow> AppState" where
  "resumeSettled env s =
     (if env_resumeRejects env
      then s\<lparr>consoleLog := consoleLog s @ [js ''Could not resume audio context'']\<rparr>
      else s\<lparr>audioContextRef := Some running\<rparr>)"

definition startRecording_after :: "StartEnv \<Rightarrow> AppState \<Rightarrow> outcome" where
  "startRecording_after env s =
     and_then (and_then (and_then (and_then
       (ensureDestination env s)
       (connectAudioElement env))
       (startSilence env))
       (setupStream env))
       (startCapture env)"

text \<open>
  The other handlers: \<open>stopRecording\<close>, the recorder's \<open>onstop\<close> handler (\<open>url\<close>
  is the object URL of the finished blob), \<open>handleIntroComplete\<close>, \<open>togglePlay\<close>,
  the audio element's \<open>onEnded\<close>, and the two branches of \<open>handleFileUpload\<close> that
  load the audio file and the lyrics (the audio element exists, and \<open>audioRef\<close> is
  set, when \<open>media.audioUrl\<close> is truthy).
\<close>

definition stopRecording :: "AppState \<Rightarrow> AppState" where
  "stopRecording s =
     (if mediaRecorderRef s = Some active
      then s\<lparr>mediaRecorderRef := Some inactive,
             audio_paused := (if audioRef s then True else audio_paused s)\<rparr>
      else s)"

definition recorder_onstop :: "jsstring \<Rightarrow> AppState \<Rightarrow> AppState" where
  "recorder_onstop url s =
     s\<lparr>downloadUrl := Some url,
       chunksRef := 0,
       recordingPhase := idle,
       isRecording := False,
       isPlaying := False,
       silenceOscRef := False\<rparr>"

definition handleIntroComplete :: "AppState \<Rightarrow> AppState" where
  "handleIntroComplete s =
     (let s1 = s\<lparr>recordingPhase := recording\<rparr>
      in if audioRef s1 then s1\<lparr>audio_paused := False, isPlaying := True\<rparr> else s1)"

definition togglePlay :: "AppState \<Rightarrow> AppState" where
  "togglePlay s = (if isRecording s then stopRecording s else s\<lparr>isPlaying := \<not> isPlaying s\<rparr>)"

definition audio_onEnded :: "AppState \<Rightarrow> AppState" where
  "audio_onEnded s =
     (let s1 = s\<lparr>isPlaying := False\<rparr>
      in if isRecording s1 then stopRecording s1 else s1)"

definition loadAudio :: "jsstring \<Rightarrow> AppState \<Rightarrow> AppState" where
  "loadAudio url s = s\<lparr>media_audioUrl := Some url, audioRef := (url \<noteq> [])\<rparr>"

definition loadLyrics :: "LyricLine list \<Rightarrow> AppState \<Rightarrow> AppState" where
  "loadLyrics ls s = s\<lparr>media_lyrics := ls, smoothIndexRef := 0\<rparr>"

text \<open>
  The controller between events: the state of the component, and the number of calls of
  \<open>startRecording\<close> that are waiting at \<open>await actx.resume()\<close>. Handlers run one at
  a time, and a call that awaits lets other handlers run before it goes on.

  The Record button is rendered only while \<open>isRecording\<close> is false, and disabled while
  \<open>!media.audioUrl || !media.lyrics.length\<close>. A click on it runs \<open>startRecording\<close>
  up to the \<open>await\<close> when the context is suspended (\<open>isRecording\<close> is not yet set,
  so the button stays as it is), and to its end otherwise. \<open>startRecording_resumed\<close>
  is one waiting call going on after its promise has settled.
\<close>

record Controller =
  app :: AppState
  awaitingResume :: nat

definition falsy :: "jsstring option \<Rightarrow> bool" where
  "falsy u = (case u of None \<Rightarrow> True | Some v \<Rightarrow> v = [])"

definition startRecording_begin :: "StartEnv \<Rightarrow> Controller \<Rightarrow> Controller" where
  "startRecording_begin env c =
     (if \<not> canvasRef (app c) \<or> \<not> audioRef (app c) then c
      else
        (case ensureAudioContext env (app c) of
           Rejected s1 \<Rightarrow> c\<lparr>app := s1\<rparr>
         | Returned s1 \<Rightarrow>
             if audioContextRef s1 = Some suspended
             then c\<lparr>app := s1, awaitingResume := awaitingResume c + 1\<rparr>
             else c\<lparr>app := outcome_state (startRecording_after env s1)\<rparr>))"

definition startRecording_resumed :: "StartEnv \<Rightarrow> Controller \<Rightarrow> Controller" where
  "startRecording_resumed env c =
     (if awaitingResume c = 0 then c
      else c\<lparr>app := outcome_state (startRecording_after env (resumeSettled env (app c))),
             awaitingResume := awaitingResume c - 1\<rparr>)"

definition recordButton_click :: "StartEnv \<Rightarrow> Controller \<Rightarrow> Controller" where
  "recordButton_click env c =
     (if isRecording (app c) then c
      else if falsy (media_audioUrl (app c)) \<or> length (media_lyrics (app c)) = 0 then c
      else startRecording_begin env c)"

text \<open>
  The events that drive the controller. The Stop button is rendered while
  \<open>isRecording\<close>; \<open>animate\<close> calls \<open>handleIntroComplete\<close> only in phase
  \<open>intro\<close>; the platform delivers \<open>stop\<close> to a recorder that has become inactive
  (the model also allows it for a recorder whose \<open>start\<close> failed, which only adds
  behaviours). \<open>run\<close> is the controller after a sequence of events from the initial
  state.
\<close>

datatype event =
  ClickRecord StartEnv
| ResumeSettled StartEnv
| ClickStop
| TogglePlay
| AudioEnded
| IntroElapsed
| RecorderStopped jsstring
| LoadAudio jsstring
| LoadLyrics "LyricLine list"

fun step :: "event \<Rightarrow> Controller \<Rightarrow> Controller" where
  "step (ClickRecord env) c = recordButton_click env c"
| "step (ResumeSettled env) c = startRecording_resumed env c"
| "step ClickStop c = (if isRecording (app c) then c\<lparr>app := stopRecording (app c)\<rparr> else c)"
| "step TogglePlay c = c\<lparr>app := togglePlay (app c)\<rparr>"
| "step AudioEnded c = (if audioRef (app c) then c\<lparr>app := audio_onEnded (app c)\<rparr> else c)"
| "step IntroElapsed c =
     (if recordingPhase (app c) = intro then c\<lparr>app := handleIntroComplete (app c)\<rparr> else c)"
| "step (RecorderStopped url) c =
     (if mediaRecorderRef (app c) = Some inactive then c\<lparr>app := recorder_onstop url (app c)\<rparr>
      else c)"
| "step (LoadAudio url) c = c\<lparr>app := loadAudio url (app c)\<rparr>"
| "step (LoadLyrics ls) c = c\<lparr>app := loadLyrics ls (app c)\<rparr>"

definition initial_state :: AppState where
  "initial_state =
     \<lparr>media_audioUrl = None, media_lyrics = [], isPlaying = False, isRecording = False,
      recordingPhase = idle, downloadUrl = None, canvasRef = True, audioRef = False,
      audio_currentTime = 0, audio_paused = True, mediaRecorderRef = None,
      orphanRecorders = 0, chunksRef = 0, audioContextRef = None,
      audioSourceNodeRef = False, audioDestNodeRef = False, silenceOscRef = False,
      orphanOscillators = 0, smoothIndexRef = 0, introStartTimeRef = 0, alerts = [],
      consoleLog = []\<rparr>"

definition run :: "event list \<Rightarrow> Controller" where
  "run es = foldl (\<lambda>c e. step e c) \<lparr>app = initial_state, awaitingResume = 0\<rparr> es"

text \<open>
  For stating the properties: the recorders that are recording; the failures of
  \<open>startRecording\<close> that escape as exceptions (outside its \<open>try\<close> block); the
  fields that the steps before the \<open>try\<close> block leave alone; and concrete inputs: a
  platform on which every call succeeds and a new audio context is suspended, the state
  after loading an audio file and one cue, and the events of two clicks on Record that
  both arrive before the first call's \<open>resume\<close> has settled.
\<close>

definition activeRecorders :: "AppState \<Rightarrow> nat" where
  "activeRecorders s = orphanRecorders s + (if mediaRecorderRef s = Some active then 1 else 0)"

definition start_rejects :: "StartEnv \<Rightarrow> AppState \<Rightarrow> bool" where
  "start_rejects env s =
     ((audioContextRef s = None \<and> env_newAudioContext env = None)
      \<or> (\<not> audioDestNodeRef s \<and> env_createDestinationThrows env)
      \<or> env_createOscillatorThrows env
      \<or> env_captureStreamThrows env)"

definition controller_frame :: "AppState \<Rightarrow> AppState \<Rightarrow> bool" where
  "controller_frame s s' =
     (recordingPhase s' = recordingPhase s \<and> isRecording s' = isRecording s
      \<and> downloadUrl s' = downloadUrl s \<and> isPlaying s' = isPlaying s
      \<and> alerts s' = alerts s \<and> mediaRecorderRef s' = mediaRecorderRef s
      \<and> orphanRecorders s' = orphanRecorders s \<and> chunksRef s' = chunksRef s
      \<and> audio_currentTime s' = audio_currentTime s \<and> audio_paused s' = audio_paused s
      \<and> canvasRef s' = canvasRef s \<and> audioRef s' = audioRef s
      \<and> media_audioUrl s' = media_audioUrl s \<and> media_lyrics s' = media_lyrics s)"

definition env_ok :: StartEnv where
  "env_ok =
     \<lparr>env_newAudioContext = Some suspended, env_resumeRejects = False,
      env_createDestinationThrows = False, env_createSourceThrows = False,
      env_createOscillatorThrows = False, env_captureStreamThrows = False,
      env_recorderConstructorThrows = False, env_recorderStartThrows = False,
      env_errorText = js ''NotSupportedError'', env_now = 1000\<rparr>"

definition loaded_state :: AppState where
  "loaded_state =
     loadLyrics [\<lparr>time = 1, text = js ''la''\<rparr>] (loadAudio (js ''blob:a'') initial_state)"

definition load_events :: "event list" where
  "load_events = [LoadAudio (js ''blob:a''), LoadLyrics [\<lparr>time = 1, text = js ''la''\<rparr>]]"

definition double_click_events :: "event list" where
  "double_click_events =
     load_events @ [ClickRecord env_ok, ClickRecord env_ok, ResumeSettled env_ok,
                    ResumeSettled env_ok]"

section \<open>Active index: facts\<close>

lemma activeIndex_loop_reached:
  "activeIndex_loop cs t i a =
     (if reached cs t = 0 then a else int (i + reached cs t) - 1)"
  by (induction cs arbitrary: i a) (auto simp: reached_def)

lemma activeIndex_reached:
  "activeIndex cs t = (if reached cs t = 0 then 0 else int (reached cs t) - 1)"
  by (simp add: activeIndex_def activeIndex_loop_reached)

lemma reached_le_length: "reached cs t \<le> length cs"
  by (simp add: reached_def length_takeWhile_le)

lemma reached_mono: "t \<le> t' \<Longrightarrow> reached cs t \<le> reached cs t'"
  by (induction cs) (auto simp: reached_def)

lemma below_reached:
  assumes "j < reached cs t"
  shows "time (cs ! j) \<le> t"
proof -
  let ?P = "\<lambda>c. time c \<le> t"
  from assms have j: "j < length (takeWhile ?P cs)" by (simp add: reached_def)
  then have "takeWhile ?P cs ! j \<in> set (takeWhile ?P cs)" by (rule nth_mem)
  then have "?P (takeWhile ?P cs ! j)" by (rule set_takeWhileD [THEN conjunct2])
  with j show ?thesis by (simp add: takeWhile_nth)
qed

lemma reached_sorted:
  assumes "sorted (map time cs)" and "j < length cs" and "time (cs ! j) \<le> t"
  shows "j < reached cs t"
proof (rule ccontr)
  assume "\<not> j < reached cs t"
  then have le: "reached cs t \<le> j" by simp
  with assms(2) have lt: "reached cs t < length cs" by simp
  then have "\<not> time (cs ! reached cs t) \<le> t"
    unfolding reached_def by (rule nth_length_takeWhile)
  moreover have "time (cs ! reached cs t) \<le> time (cs ! j)"
    using assms(1) le assms(2) lt by (simp add: sorted_iff_nth_mono)
  ultimately show False using assms(3) by simp
qed

text \<open>
  C1 (as amended). For a timeline sorted ascending by time and every time \<open>t\<close>, the
  lookup of \<open>animate\<close> returns the index of the last cue whose time is at most
  \<open>t\<close>: the index is in range, its cue qualifies, and no qualifying cue has a larger
  index. It returns 0 when no cue qualifies, and 0 as well on the empty timeline (there
  is no -1 sentinel). Over a fixed timeline the result is monotonic non-decreasing in
  \<open>t\<close>.
\<close>

theorem activeIndex_last_cue:
  assumes "sorted (map time cs)"
  shows "((\<exists>j < length cs. time (cs ! j) \<le> t) \<longrightarrow>
            0 \<le> activeIndex cs t \<and> nat (activeIndex cs t) < length cs \<and>
            time (cs ! nat (activeIndex cs t)) \<le> t \<and>
            (\<forall>j < length cs. time (cs ! j) \<le> t \<longrightarrow> int j \<le> activeIndex cs t))
       \<and> ((\<forall>j < length cs. \<not> time (cs ! j) \<le> t) \<longrightarrow> activeIndex cs t = 0)
       \<and> (cs = [] \<longrightarrow> activeIndex cs t = 0)
       \<and> (t \<le> t' \<longrightarrow> activeIndex cs t \<le> activeIndex cs t')"
proof (intro conjI impI)
  assume ex: "\<exists>j < length cs. time (cs ! j) \<le> t"
  then obtain j where j: "j < length cs" "time (cs ! j) \<le> t" by blast
  from reached_sorted [OF assms j] have pos: "0 < reached cs t" by simp
  then have ai: "activeIndex cs t = int (reached cs t) - 1"
    by (simp add: activeIndex_reached)
  show "0 \<le> activeIndex cs t" using ai pos by simp
  have n: "nat (activeIndex cs t) = reached cs t - 1" using ai pos by simp
  show "nat (activeIndex cs t) < length cs"
    using n pos reached_le_length [of cs t] by simp
  show "time (cs ! nat (activeIndex cs t)) \<le> t"
    using n pos by (simp add: below_reached)
  show "\<forall>j < length cs. time (cs ! j) \<le> t \<longrightarrow> int j \<le> activeIndex cs t"
  proof (intro allI impI)
    fix k assume "k < length cs" "time (cs ! k) \<le> t"
    from reached_sorted [OF assms this] show "int k \<le> activeIndex cs t"
      using ai by simp
  qed
next
  assume none: "\<forall>j < length cs. \<not> time (cs ! j) \<le> t"
  have "reached cs t = 0"
  proof (rule ccontr)
    assume "reached cs t \<noteq> 0"
    then have p: "0 < reached cs t" by simp
    then have "time (cs ! 0) \<le> t" by (rule below_reached)
    moreover have "0 < length cs" using p reached_le_length [of cs t] by linarith
    ultimately show False using none by blast
  qed
  then show "activeIndex cs t = 0" by (simp add: activeIndex_reached)
next
  assume "cs = []"
  then show "activeIndex cs t = 0" by (simp add: activeIndex_def)
next
  assume "t \<le> t'"
  from reached_mono [OF this, of cs] show "activeIndex cs t \<le> activeIndex cs t'"
    by (auto simp: activeIndex_reached)
qed

theorem activeIndex_last_cue_witness:
  "sorted (map time [\<lparr>time = 1, text = js ''a''\<rparr>, \<lparr>time = 5 / 2, text = js ''b''\<rparr>])
   \<and> activeIndex [\<lparr>time = 1, text = js ''a''\<rparr>, \<lparr>time = 5 / 2, text = js ''b''\<rparr>] 3 = 1
   \<and> time ([\<lparr>time = 1, text = js ''a''\<rparr>, \<lparr>time = 5 / 2, text = js ''b''\<rparr>] ! 1) \<le> 3
   \<and> activeIndex [\<lparr>time = 1, text = js ''a''\<rparr>, \<lparr>time = 5 / 2, text = js ''b''\<rparr>] 2
        \<le> activeIndex [\<lparr>time = 1, text = js ''a''\<rparr>, \<lparr>time = 5 / 2, text = js ''b''\<rparr>] 3
   \<and> \<not> time ([\<lparr>time = 1, text = js ''a''\<rparr>, \<lparr>time = 5 / 2, text = js ''b''\<rparr>] ! 0) \<le> 1 / 2
   \<and> activeIndex [\<lparr>time = 1, text = js ''a''\<rparr>, \<lparr>time = 5 / 2, text = js ''b''\<rparr>] (1 / 2) = 0"
proof -
  let ?cs = "[\<lparr>time = 1, text = js ''a''\<rparr>, \<lparr>time = 5 / 2, text = js ''b''\<rparr>]"
  have s: "sorted (map time ?cs)" by simp
  have n: "\<forall>j < length ?cs. \<not> time (?cs ! j) \<le> 1 / 2"
    by (auto simp: less_Suc_eq)
  from activeIndex_last_cue [OF s, of 2 3] s have a:
    "activeIndex ?cs 3 = 1 \<and> time (?cs ! 1) \<le> 3 \<and> activeIndex ?cs 2 \<le> activeIndex ?cs 3"
    by (simp add: activeIndex_def)
  from activeIndex_last_cue [OF s, of "1 / 2" 3] n have b: "activeIndex ?cs (1 / 2) = 0"
    by blast
  from s a b show ?thesis by simp
qed

text \<open>
  The empty timeline does not yield -1: the loop never runs and the initial value 0 of
  \<open>activeIndex\<close> is what \<open>animate\<close> uses.
\<close>

theorem activeIndex_empty_counterexample:
  "activeIndex [] 0 = 0 \<and> activeIndex [] 0 \<noteq> - 1"
  by (simp add: activeIndex_def)

text \<open>
  On a list that is not sorted the loop stops at the first cue that is later than
  \<open>t\<close>, so a later cue that qualifies is not found; timelines are sorted by
  \<open>parseLrc\<close>.
\<close>

lemma activeIndex_unsorted_example:
  "activeIndex [\<lparr>time = 5, text = js ''a''\<rparr>, \<lparr>time = 1, text = js ''b''\<rparr>] 3 = 0"
  by (simp add: activeIndex_def)

section \<open>The LRC parser: facts\<close>

lemma js_split_nonempty: "js_split sep s \<noteq> []"
  by (induction s) (auto split: list.splits)

lemma js_split_notin: "sep \<notin> set s \<Longrightarrow> js_split sep s = [s]"
  by (induction s) auto

lemma js_split_append:
  "js_split sep (a @ sep # b) = js_split sep a @ js_split sep b"
proof (induction a)
  case Nil
  show ?case by simp
next
  case (Cons c a)
  obtain w ws where w: "js_split sep a = w # ws"
    using js_split_nonempty [of sep a] by (cases "js_split sep a") auto
  show ?case using Cons w by simp
qed

lemma js_join_split: "js_join sep (js_split sep s) = s"
proof (induction s)
  case Nil
  show ?case by simp
next
  case (Cons c s)
  obtain w ws where w: "js_split sep s = w # ws"
    using js_split_nonempty [of sep s] by (cases "js_split sep s") auto
  show ?case
  proof (cases "c = sep")
    case True
    with Cons w show ?thesis by simp
  next
    case False
    with Cons w show ?thesis by (cases ws) auto
  qed
qed

lemma frac_at_two:
  "isDigit f1 \<Longrightarrow> isDigit f2 \<Longrightarrow> frac_at ([f1, f2] @ 93 # rest) = Some ([f1, f2], rest)"
  by (cases rest) (auto simp: frac_at_def isDigit_def)

lemma frac_at_three:
  "isDigit f1 \<Longrightarrow> isDigit f2 \<Longrightarrow> isDigit f3 \<Longrightarrow>
   frac_at ([f1, f2, f3] @ 93 # rest) = Some ([f1, f2, f3], rest)"
  by (auto simp: frac_at_def)

lemma frac_at_digits:
  assumes "list_all isDigit fr" and "length fr = 2 \<or> length fr = 3"
  shows "frac_at (fr @ 93 # rest) = Some (fr, rest)"
proof -
  from assms(2) consider (two) f1 f2 where "fr = [f1, f2]" | (three) f1 f2 f3 where "fr = [f1, f2, f3]"
    by (auto simp: length_Suc_conv numeral_2_eq_2 numeral_3_eq_3)
  then show ?thesis
  proof cases
    case two
    with assms(1) frac_at_two [of f1 f2 rest] show ?thesis by simp
  next
    case three
    with assms(1) frac_at_three [of f1 f2 f3 rest] show ?thesis by simp
  qed
qed

lemma timeReg_at_tag:
  assumes "isDigit a" "isDigit b" "isDigit c" "isDigit d" "p = 46 \<or> p = 58"
    and "list_all isDigit fr" and "length fr = 2 \<or> length fr = 3"
  shows "timeReg_at ([91, a, b, 58, c, d, p] @ fr @ 93 # rest) = Some ([a, b], [c, d], fr, rest)"
  using assms frac_at_digits [of fr rest] by (auto simp: timeReg_at_def)

lemma timeReg_at_not_bracket: "c \<noteq> 91 \<Longrightarrow> timeReg_at (c # cs) = None"
  by (auto simp: timeReg_at_def split: list.splits)

lemma timeReg_exec_skip:
  "91 \<notin> set pre \<Longrightarrow>
   timeReg_exec (pre @ s) =
     (case timeReg_exec s of None \<Rightarrow> None | Some (p, g, r) \<Rightarrow> Some (pre @ p, g, r))"
proof (induction pre)
  case Nil
  show ?case by (auto split: option.splits)
next
  case (Cons c pre)
  then have "timeReg_at (c # pre @ s) = None" by (simp add: timeReg_at_not_bracket)
  with Cons show ?case by (auto split: option.splits)
qed

lemma frac_at_sound:
  "frac_at s = Some (g3, rest) \<Longrightarrow>
   s = g3 @ 93 # rest \<and> list_all isDigit g3 \<and> (length g3 = 2 \<or> length g3 = 3)"
  by (auto simp: frac_at_def split: list.splits if_splits)

lemma timeReg_at_sound:
  assumes "timeReg_at s = Some (g1, g2, g3, rest)"
  shows "\<exists>tg. is_tag tg \<and> s = tg @ rest"
proof -
  from assms obtain b m1 m2 c s1 s2 p s' where s: "s = b # m1 # m2 # c # s1 # s2 # p # s'"
    by (auto simp: timeReg_at_def split: list.splits)
  with assms have ok: "b = 91" "isDigit m1" "isDigit m2" "c = 58" "isDigit s1" "isDigit s2"
      "p = 46 \<or> p = 58" and fr: "frac_at s' = Some (g3, rest)"
    by (auto simp: timeReg_at_def split: if_splits option.splits)
  from frac_at_sound [OF fr] have s': "s' = g3 @ 93 # rest" and d: "list_all isDigit g3"
      and l: "length g3 = 2 \<or> length g3 = 3" by auto
  have "is_tag ([91, m1, m2, 58, s1, s2, p] @ g3 @ [93])"
    unfolding is_tag_def using ok d l by blast
  then show ?thesis using s s' ok by auto
qed

lemma timeReg_exec_sound:
  "timeReg_exec s = Some (pre, g, rest) \<Longrightarrow> \<exists>tg. is_tag tg \<and> s = pre @ tg @ rest"
proof (induction s arbitrary: pre)
  case Nil
  then show ?case by simp
next
  case (Cons c s)
  show ?case
  proof (cases "timeReg_at (c # s)")
    case (Some m)
    obtain g1 g2 g3 r where m: "m = (g1, g2, g3, r)" by (cases m) auto
    with Some Cons.prems have "pre = []" "rest = r" by auto
    with timeReg_at_sound [of "c # s" g1 g2 g3 r] Some m show ?thesis by auto
  next
    case None
    with Cons.prems obtain pre' where e: "timeReg_exec s = Some (pre', g, rest)" and p: "pre = c # pre'"
      by (auto split: option.splits)
    from Cons.IH [OF e] p show ?thesis by auto
  qed
qed

lemma timeReg_exec_no_tag: "\<not> has_tag line \<Longrightarrow> timeReg_exec line = None"
proof (rule ccontr)
  assume n: "\<not> has_tag line" and "timeReg_exec line \<noteq> None"
  then obtain pre g rest where "timeReg_exec line = Some (pre, g, rest)" by auto
  from timeReg_exec_sound [OF this] n show False unfolding has_tag_def by blast
qed

lemma is_tag_length: "is_tag tg \<Longrightarrow> 10 \<le> length tg"
  by (auto simp: is_tag_def)

lemma has_tag_length: "has_tag line \<Longrightarrow> 10 \<le> length line"
  using is_tag_length by (fastforce simp: has_tag_def)

lemma trim_empty_iff: "trim s = [] \<longleftrightarrow> list_all isWhiteSpace s"
proof
  assume t: "trim s = []"
  have "dropWhile isWhiteSpace s = []"
  proof (rule ccontr)
    assume ne: "dropWhile isWhiteSpace s \<noteq> []"
    then have h: "\<not> isWhiteSpace (hd (dropWhile isWhiteSpace s))" by (rule hd_dropWhile)
    from t have "\<forall>x \<in> set (dropWhile isWhiteSpace s). isWhiteSpace x"
      by (simp add: trim_def)
    with ne h show False using hd_in_set [OF ne] by blast
  qed
  then show "list_all isWhiteSpace s"
    by (simp add: list_all_iff)
next
  assume "list_all isWhiteSpace s"
  then have d: "dropWhile isWhiteSpace s = []"
    by (simp add: list_all_iff)
  show "trim s = []"
    by (simp only: trim_def d rev.simps dropWhile.simps)
qed

lemma parseInt10_two_digits: "n < 100 \<Longrightarrow> parseInt10 (two_digits n) = n"
  by (simp add: parseInt10_def two_digits_def)

lemma parseInt10_three_digits:
  assumes "n < 1000"
  shows "parseInt10 (three_digits n) = n"
proof -
  have h: "n div 100 = (n div 10) div 10" by (simp add: div_mult2_eq)
  have "10 * (10 * ((n div 10) div 10) + (n div 10) mod 10) + n mod 10 = n" by simp
  then show ?thesis by (simp add: parseInt10_def three_digits_def h)
qed

lemma isDigit_two_digits:
  assumes "n < 100"
  shows "list_all isDigit (two_digits n)"
proof -
  from assms have "n div 10 \<le> 9" by linarith
  moreover have "n mod 10 \<le> 9" by linarith
  ultimately show ?thesis by (simp add: two_digits_def isDigit_def)
qed

lemma isDigit_three_digits:
  assumes "n < 1000"
  shows "list_all isDigit (three_digits n)"
proof -
  from assms have "n div 100 \<le> 9" by linarith
  moreover have "(n div 10) mod 10 \<le> 9" by linarith
  moreover have "n mod 10 \<le> 9" by linarith
  ultimately show ?thesis by (simp add: three_digits_def isDigit_def)
qed

lemma timeReg_exec_tagged:
  assumes "MM < 100" "SS < 100" "p = 46 \<or> p = 58" "91 \<notin> set pre"
    and "list_all isDigit fr" and "length fr = 2 \<or> length fr = 3"
  shows "timeReg_exec (pre @ [91] @ two_digits MM @ [58] @ two_digits SS @ [p] @ fr @ [93] @ rest)
           = Some (pre, (two_digits MM, two_digits SS, fr), rest)"
proof -
  let ?tail = "[91] @ two_digits MM @ [58] @ two_digits SS @ [p] @ fr @ [93] @ rest"
  have d: "list_all isDigit (two_digits MM)" "list_all isDigit (two_digits SS)"
    using assms(1,2) by (simp_all add: isDigit_two_digits)
  have "timeReg_at ?tail = Some (two_digits MM, two_digits SS, fr, rest)"
    using timeReg_at_tag [of "48 + MM div 10" "48 + MM mod 10" "48 + SS div 10" "48 + SS mod 10" p fr rest]
      d assms(3,5,6)
    by (simp add: two_digits_def)
  then have "timeReg_exec ?tail = Some ([], (two_digits MM, two_digits SS, fr), rest)"
    by (simp add: two_digits_def)
  with timeReg_exec_skip [OF assms(4), of ?tail] show ?thesis by simp
qed

lemma parseLrc_single_line:
  assumes "10 \<notin> set line"
  shows "parseLrc line = sort_key time (parseLrc_line line [])"
  using assms by (simp add: parseLrc_def js_split_notin)

lemma tagged_no_newline:
  assumes "p = 46 \<or> p = 58" and "list_all isDigit fr" and "10 \<notin> set pre" and "10 \<notin> set rest"
  shows "10 \<notin> set (pre @ [91] @ two_digits MM @ [58] @ two_digits SS @ [p] @ fr @ [93] @ rest)"
proof -
  have "10 \<notin> set fr"
    using assms(2) by (auto simp: list_all_iff isDigit_def)
  then show ?thesis
    using assms(1,3,4) by (auto simp: two_digits_def)
qed

lemma parseLrc_line_tagged:
  assumes "MM < 100" "SS < 100" "p = 46 \<or> p = 58" "91 \<notin> set pre"
    and "list_all isDigit fr" and "length fr = 2 \<or> length fr = 3"
    and "trim (pre @ rest) \<noteq> []"
  shows "parseLrc_line (pre @ [91] @ two_digits MM @ [58] @ two_digits SS @ [p] @ fr @ [93] @ rest)
           result
           = result @ [\<lparr>time = of_nat MM * 60 + of_nat SS
                      + of_nat (parseInt10 fr) / (if length fr = 3 then 1000 else 100),
               text = trim (pre @ rest)\<rparr>]"
proof -
  let ?line = "pre @ [91] @ two_digits MM @ [58] @ two_digits SS @ [p] @ fr @ [93] @ rest"
  have ex: "timeReg_exec ?line = Some (pre, (two_digits MM, two_digits SS, fr), rest)"
    using assms(1-6) by (rule timeReg_exec_tagged)
  show ?thesis
    unfolding parseLrc_line_def replace_timeReg_def ex
    using assms(1,2,7) by (simp add: parseInt10_two_digits Let_def)
qed

lemma parseLrc_tagged:
  assumes "MM < 100" "SS < 100" "p = 46 \<or> p = 58" "91 \<notin> set pre"
    and "list_all isDigit fr" and "length fr = 2 \<or> length fr = 3"
    and "10 \<notin> set pre" "10 \<notin> set rest" "trim (pre @ rest) \<noteq> []"
  shows "parseLrc (pre @ [91] @ two_digits MM @ [58] @ two_digits SS @ [p] @ fr @ [93] @ rest)
           = [\<lparr>time = of_nat MM * 60 + of_nat SS
                      + of_nat (parseInt10 fr) / (if length fr = 3 then 1000 else 100),
               text = trim (pre @ rest)\<rparr>]"
proof -
  let ?line = "pre @ [91] @ two_digits MM @ [58] @ two_digits SS @ [p] @ fr @ [93] @ rest"
  have nl: "10 \<notin> set ?line"
    using assms(3,5,7,8) by (rule tagged_no_newline)
  from parseLrc_line_tagged [OF assms(1-6,9), of "[]"] parseLrc_single_line [OF nl]
  show ?thesis by simp
qed

text \<open>
  Every line adds its own cues to the result, whatever the other lines are: the cues of
  a file are, up to the final sort, the cues of its parts.
\<close>

lemma parseLrc_line_append: "parseLrc_line line result = result @ parseLrc_line line []"
  by (simp add: parseLrc_line_def Let_def split: option.splits prod.splits)

lemma parseLrc_loop_concat:
  "foldl (\<lambda>result line. parseLrc_line line result) result ls
     = result @ concat (map (\<lambda>line. parseLrc_line line []) ls)"
proof (induction ls arbitrary: result)
  case Nil
  show ?case by simp
next
  case (Cons l ls)
  show ?case
    using Cons.IH [of "parseLrc_line l result"] parseLrc_line_append [of l result] by simp
qed

lemma mset_parseLrc:
  "mset (parseLrc s) = mset (concat (map (\<lambda>line. parseLrc_line line []) (js_split 10 s)))"
  using parseLrc_loop_concat [of "[]" "js_split 10 s"] by (simp add: parseLrc_def)

lemma mset_parseLrc_append:
  "mset (parseLrc (a @ [10] @ b)) = mset (parseLrc a) + mset (parseLrc b)"
  using js_split_append [of 10 a b] by (simp add: mset_parseLrc)

lemma yields_cue_intro:
  assumes "10 \<notin> set line" and "\<And>result. parseLrc_line line result = result @ [cue]"
  shows "yields_cue line cue"
proof -
  have one: "parseLrc line = [cue]"
    using parseLrc_single_line [OF assms(1)] assms(2) [of "[]"] by simp
  have mid: "mset (parseLrc (a @ [10] @ line @ [10] @ b))
               = mset (parseLrc a) + {#cue#} + mset (parseLrc b)" for a b
    using mset_parseLrc_append [of a "line @ [10] @ b"] mset_parseLrc_append [of line b] one
    by simp
  have first: "mset (parseLrc (line @ [10] @ b)) = {#cue#} + mset (parseLrc b)" for b
    using mset_parseLrc_append [of line b] one by simp
  have last: "mset (parseLrc (a @ [10] @ line)) = mset (parseLrc a) + {#cue#}" for a
    using mset_parseLrc_append [of a line] one by simp
  show ?thesis
    unfolding yields_cue_def using assms(2) one mid first last by blast
qed

lemma parseLrc_line_no_tag: "\<not> has_tag line \<Longrightarrow> parseLrc_line line result = result"
  by (simp add: parseLrc_line_def timeReg_exec_no_tag)

lemma not_isWhiteSpace_bracket: "\<not> isWhiteSpace 91"
  by (simp add: isWhiteSpace_def)

lemma parseLrc_line_blank:
  assumes "is_tag tg" and "trim (pre @ rest) = []"
  shows "parseLrc_line (pre @ tg @ rest) result = result"
proof (cases "timeReg_exec (pre @ tg @ rest)")
  case None
  then show ?thesis by (simp add: parseLrc_line_def)
next
  case (Some m)
  from assms(2) have "list_all isWhiteSpace pre"
    by (simp add: trim_empty_iff)
  then have nb: "91 \<notin> set pre"
    using not_isWhiteSpace_bracket by (auto simp: list_all_iff)
  from assms(1) obtain a b c d p fr where tg: "tg = [91, a, b, 58, c, d, p] @ fr @ [93]"
    and ok: "isDigit a" "isDigit b" "isDigit c" "isDigit d" "p = 46 \<or> p = 58"
      "length fr = 2 \<or> length fr = 3" "list_all isDigit fr"
    unfolding is_tag_def by blast
  have "timeReg_at (tg @ rest) = Some ([a, b], [c, d], fr, rest)"
    using timeReg_at_tag [of a b c d p fr rest] ok tg by simp
  then have "timeReg_exec (tg @ rest) = Some ([], ([a, b], [c, d], fr), rest)"
    using tg by simp
  with timeReg_exec_skip [OF nb, of "tg @ rest"]
  have "timeReg_exec (pre @ tg @ rest) = Some (pre, ([a, b], [c, d], fr), rest)" by simp
  then show ?thesis
    using assms(2) by (simp add: parseLrc_line_def replace_timeReg_def Let_def)
qed

lemma parseLrc_drop_line:
  assumes "\<And>result. parseLrc_line line result = result" and "10 \<notin> set line"
  shows "parseLrc (a @ [10] @ line @ [10] @ b) = parseLrc (a @ [10] @ b)"
proof -
  have "js_split 10 (a @ [10] @ line @ [10] @ b) = js_split 10 a @ [line] @ js_split 10 b"
    using js_split_append [of 10 a "line @ 10 # b"] js_split_append [of 10 line b]
      js_split_notin [OF assms(2)] by simp
  moreover have "js_split 10 (a @ [10] @ b) = js_split 10 a @ js_split 10 b"
    using js_split_append [of 10 a b] by simp
  ultimately show ?thesis
    by (simp add: parseLrc_def assms(1))
qed

lemma parseLrc_line_cues:
  assumes "\<forall>c \<in> set result. text c \<noteq> [] \<and> 0 \<le> time c"
  shows "\<forall>c \<in> set (parseLrc_line line result). text c \<noteq> [] \<and> 0 \<le> time c"
  using assms by (auto simp: parseLrc_line_def Let_def split: option.splits)

lemma parseLrc_loop_cues:
  "\<forall>c \<in> set result. text c \<noteq> [] \<and> 0 \<le> time c \<Longrightarrow>
   \<forall>c \<in> set (foldl (\<lambda>result line. parseLrc_line line result) result ls).
      text c \<noteq> [] \<and> 0 \<le> time c"
proof (induction ls arbitrary: result)
  case Nil
  then show ?case by simp
next
  case (Cons l ls)
  from parseLrc_line_cues [OF Cons.prems, of l] Cons.IH show ?case by simp
qed

lemma parseLrc_cues: "\<forall>c \<in> set (parseLrc s). text c \<noteq> [] \<and> 0 \<le> time c"
  using parseLrc_loop_cues [of "[]" "js_split 10 s"] by (simp add: parseLrc_def)

lemma parseLrc_sorted: "sorted (map time (parseLrc s))"
  by (simp add: parseLrc_def)

lemma is_tag_intro:
  "isDigit a \<Longrightarrow> isDigit b \<Longrightarrow> isDigit c \<Longrightarrow> isDigit d \<Longrightarrow> p = 46 \<or> p = 58 \<Longrightarrow>
   length fr = 2 \<or> length fr = 3 \<Longrightarrow> list_all isDigit fr \<Longrightarrow>
   is_tag ([91, a, b, 58, c, d, p] @ fr @ [93])"
  unfolding is_tag_def by blast

lemma is_tag_no_newline:
  assumes "is_tag tg"
  shows "10 \<notin> set tg"
proof -
  from assms obtain a b c d p fr where tg: "tg = [91, a, b, 58, c, d, p] @ fr @ [93]"
    and ok: "isDigit a" "isDigit b" "isDigit c" "isDigit d" "p = 46 \<or> p = 58"
      "list_all isDigit fr"
    unfolding is_tag_def by blast
  from ok(6) have "10 \<notin> set fr" by (auto simp: list_all_iff isDigit_def)
  with ok(1-5) show ?thesis unfolding tg by (auto simp: isDigit_def)
qed

lemmas parseLrc_eval =
  parseLrc_def js_def parseLrc_line_def timeReg_at_def frac_at_def isDigit_def
  replace_timeReg_def trim_def isWhiteSpace_def parseInt10_def

text \<open>
  C2 (as amended). A line made of optional leading text without an opening bracket, a
  timestamp tag \<open>[MM:SS.xx]\<close> or \<open>[MM:SS:xxx]\<close> (with \<open>.\<close> or \<open>:\<close> before the
  fraction) and following text, where the text that remains once the tag is removed is
  non-empty after trimming, becomes exactly one cue, alone and as a line of any file:
  the loop body appends that cue, the line alone parses to it, and in a file the line
  adds exactly that cue to the cues of the other lines. Its time is
  \<open>MM * 60 + SS + frac / d\<close> with \<open>d = 100\<close> for a two-digit and \<open>d = 1000\<close> for a
  three-digit fraction, and its text is the remaining text, trimmed. In particular
  \<open>[00:01.50]Hello\<close> gives \<open>{time: 1.5, text: "Hello"}\<close> and \<open>[00:01:500]Hi\<close> gives
  \<open>{time: 1.5, text: "Hi"}\<close>.
\<close>

theorem parseLrc_tagged_line:
  assumes "MM < 100" and "SS < 100" and "p = 46 \<or> p = 58"
    and "91 \<notin> set pre" and "10 \<notin> set pre" and "10 \<notin> set rest"
    and "trim (pre @ rest) \<noteq> []"
  shows "(xx < 100 \<longrightarrow>
            yields_cue
              (pre @ [91] @ two_digits MM @ [58] @ two_digits SS @ [p]
                 @ two_digits xx @ [93] @ rest)
              \<lparr>time = of_nat MM * 60 + of_nat SS + of_nat xx / 100,
               text = trim (pre @ rest)\<rparr>)
       \<and> (xxx < 1000 \<longrightarrow>
            yields_cue
              (pre @ [91] @ two_digits MM @ [58] @ two_digits SS @ [p]
                 @ three_digits xxx @ [93] @ rest)
              \<lparr>time = of_nat MM * 60 + of_nat SS + of_nat xxx / 1000,
               text = trim (pre @ rest)\<rparr>)
       \<and> parseLrc (js ''[00:01.50]Hello'') = [\<lparr>time = 3 / 2, text = js ''Hello''\<rparr>]
       \<and> parseLrc (js ''[00:01:500]Hi'') = [\<lparr>time = 3 / 2, text = js ''Hi''\<rparr>]"
proof (intro conjI impI)
  assume x: "xx < 100"
  have l: "length (two_digits xx) = 2 \<or> length (two_digits xx) = 3"
    and l2: "length (two_digits xx) \<noteq> 3"
    by (simp_all add: two_digits_def)
  let ?line = "pre @ [91] @ two_digits MM @ [58] @ two_digits SS @ [p]
                 @ two_digits xx @ [93] @ rest"
  have nl: "10 \<notin> set ?line"
    using assms(3) isDigit_two_digits [OF x] assms(5,6) by (rule tagged_no_newline)
  have "parseLrc_line ?line result
          = result @ [\<lparr>time = of_nat MM * 60 + of_nat SS + of_nat xx / 100,
                       text = trim (pre @ rest)\<rparr>]" for result
    using parseLrc_line_tagged [OF assms(1-4) isDigit_two_digits [OF x] l assms(7), of result]
      x l2 by (simp add: parseInt10_two_digits)
  with nl show "yields_cue ?line
      \<lparr>time = of_nat MM * 60 + of_nat SS + of_nat xx / 100, text = trim (pre @ rest)\<rparr>"
    by (rule yields_cue_intro)
next
  assume x: "xxx < 1000"
  have l: "length (three_digits xxx) = 2 \<or> length (three_digits xxx) = 3"
    and l3: "length (three_digits xxx) = 3"
    by (simp_all add: three_digits_def)
  let ?line = "pre @ [91] @ two_digits MM @ [58] @ two_digits SS @ [p]
                 @ three_digits xxx @ [93] @ rest"
  have nl: "10 \<notin> set ?line"
    using assms(3) isDigit_three_digits [OF x] assms(5,6) by (rule tagged_no_newline)
  have "parseLrc_line ?line result
          = result @ [\<lparr>time = of_nat MM * 60 + of_nat SS + of_nat xxx / 1000,
                       text = trim (pre @ rest)\<rparr>]" for result
    using parseLrc_line_tagged [OF assms(1-4) isDigit_three_digits [OF x] l assms(7), of result]
      x l3 by (simp add: parseInt10_three_digits)
  with nl show "yields_cue ?line
      \<lparr>time = of_nat MM * 60 + of_nat SS + of_nat xxx / 1000, text = trim (pre @ rest)\<rparr>"
    by (rule yields_cue_intro)
next
  show "parseLrc (js ''[00:01.50]Hello'') = [\<lparr>time = 3 / 2, text = js ''Hello''\<rparr>]"
    by (simp add: parseLrc_eval)
next
  show "parseLrc (js ''[00:01:500]Hi'') = [\<lparr>time = 3 / 2, text = js ''Hi''\<rparr>]"
    by (simp add: parseLrc_eval)
qed

lemma three_line_file:
  "parseLrc (js ''[00:02.00]B'' @ [10] @ js ''[00:01.50]Hello'' @ [10] @ js ''[00:03.00]C'')
     = [\<lparr>time = 3 / 2, text = js ''Hello''\<rparr>, \<lparr>time = 2, text = js ''B''\<rparr>,
        \<lparr>time = 3, text = js ''C''\<rparr>]"
  by (simp add: parseLrc_eval)

theorem parseLrc_tagged_line_witness:
  "trim ([] @ js ''Hello'') \<noteq> []
   \<and> parseLrc (js ''[00:01.50]Hello'') = [\<lparr>time = 3 / 2, text = js ''Hello''\<rparr>]
   \<and> parseLrc (js ''[00:01.500]Hello'') = [\<lparr>time = 3 / 2, text = js ''Hello''\<rparr>]
   \<and> parseLrc_line (js ''[00:01.50]Hello'') [\<lparr>time = 2, text = js ''B''\<rparr>]
       = [\<lparr>time = 2, text = js ''B''\<rparr>, \<lparr>time = 3 / 2, text = js ''Hello''\<rparr>]
   \<and> mset (parseLrc (js ''[00:02.00]B'' @ [10] @ js ''[00:01.50]Hello'' @ [10]
                        @ js ''[00:03.00]C''))
       = mset (parseLrc (js ''[00:02.00]B'')) + {#\<lparr>time = 3 / 2, text = js ''Hello''\<rparr>#}
           + mset (parseLrc (js ''[00:03.00]C''))
   \<and> parseLrc (js ''[00:02.00]B'' @ [10] @ js ''[00:01.50]Hello'' @ [10] @ js ''[00:03.00]C'')
       = [\<lparr>time = 3 / 2, text = js ''Hello''\<rparr>, \<lparr>time = 2, text = js ''B''\<rparr>,
          \<lparr>time = 3, text = js ''C''\<rparr>]"
proof -
  have t: "trim ([] @ js ''Hello'') \<noteq> []"
    by (simp add: trim_def js_def isWhiteSpace_def)
  have e: "trim ([] @ js ''Hello'') = js ''Hello''"
    by (simp add: trim_def js_def isWhiteSpace_def)
  have l2: "[] @ [91] @ two_digits 0 @ [58] @ two_digits 1 @ [46] @ two_digits 50 @ [93]
              @ js ''Hello'' = js ''[00:01.50]Hello''"
    and l3: "[] @ [91] @ two_digits 0 @ [58] @ two_digits 1 @ [46] @ three_digits 500 @ [93]
              @ js ''Hello'' = js ''[00:01.500]Hello''"
    by (simp_all add: two_digits_def three_digits_def js_def)
  have c: "\<lparr>time = of_nat 0 * 60 + of_nat 1 + of_nat 50 / 100, text = trim ([] @ js ''Hello'')\<rparr>
             = \<lparr>time = 3 / 2, text = js ''Hello''\<rparr>"
    and c3: "\<lparr>time = of_nat 0 * 60 + of_nat 1 + of_nat 500 / 1000, text = trim ([] @ js ''Hello'')\<rparr>
             = \<lparr>time = 3 / 2, text = js ''Hello''\<rparr>"
    using e by simp_all
  have n: "10 \<notin> set (js ''Hello'')"
    by (simp add: js_def)
  from parseLrc_tagged_line [of 0 1 46 "[]" "js ''Hello''" 50 500, OF _ _ _ _ _ n t]
  have y2: "yields_cue (js ''[00:01.50]Hello'') \<lparr>time = 3 / 2, text = js ''Hello''\<rparr>"
    and y3: "yields_cue (js ''[00:01.500]Hello'') \<lparr>time = 3 / 2, text = js ''Hello''\<rparr>"
    unfolding l2 l3 c c3 by simp_all
  from y2 have a: "parseLrc (js ''[00:01.50]Hello'') = [\<lparr>time = 3 / 2, text = js ''Hello''\<rparr>]"
    and b: "parseLrc_line (js ''[00:01.50]Hello'') [\<lparr>time = 2, text = js ''B''\<rparr>]
       = [\<lparr>time = 2, text = js ''B''\<rparr>, \<lparr>time = 3 / 2, text = js ''Hello''\<rparr>]"
    and m: "mset (parseLrc (js ''[00:02.00]B'' @ [10] @ js ''[00:01.50]Hello'' @ [10]
                        @ js ''[00:03.00]C''))
       = mset (parseLrc (js ''[00:02.00]B'')) + {#\<lparr>time = 3 / 2, text = js ''Hello''\<rparr>#}
           + mset (parseLrc (js ''[00:03.00]C''))"
    unfolding yields_cue_def by simp_all
  from y3 have d: "parseLrc (js ''[00:01.500]Hello'') = [\<lparr>time = 3 / 2, text = js ''Hello''\<rparr>]"
    unfolding yields_cue_def by simp
  from t a d b m three_line_file show ?thesis by simp
qed

text \<open>
  A tag followed by text that is non-empty but blank gives no cue: the text is trimmed
  before it is tested.
\<close>

theorem parseLrc_blank_text_counterexample:
  "parseLrc (js ''[00:01.50] '') = []"
  by (simp add: parseLrc_eval)

text \<open>
  C3 (as amended). \<open>parseLrc\<close> is a total function: no operation of the source can
  throw, and every input string yields a list of cues. A line without a valid timestamp
  tag contributes no cue, and neither does a line whose text, once its tag is removed, is
  empty after trimming; dropping such a line from the input leaves the result unchanged.
  The result is non-decreasing in time, and every cue has a non-empty text and a time
  that is at least 0.
\<close>

theorem parseLrc_total_sorted:
  "(\<not> has_tag line \<and> 10 \<notin> set line \<longrightarrow>
      parseLrc line = [] \<and> parseLrc (a @ [10] @ line @ [10] @ b) = parseLrc (a @ [10] @ b))
   \<and> (is_tag tg \<and> trim (pre @ rest) = [] \<and> 10 \<notin> set pre \<and> 10 \<notin> set rest \<longrightarrow>
      parseLrc (pre @ tg @ rest) = []
      \<and> parseLrc (a @ [10] @ (pre @ tg @ rest) @ [10] @ b) = parseLrc (a @ [10] @ b))
   \<and> sorted (map time (parseLrc s))
   \<and> (\<forall>c \<in> set (parseLrc s). text c \<noteq> [] \<and> 0 \<le> time c)"
proof (intro conjI impI)
  assume h: "\<not> has_tag line \<and> 10 \<notin> set line"
  then show "parseLrc line = []"
    by (simp add: parseLrc_single_line parseLrc_line_no_tag)
  from h show "parseLrc (a @ [10] @ line @ [10] @ b) = parseLrc (a @ [10] @ b)"
    by (intro parseLrc_drop_line) (simp_all add: parseLrc_line_no_tag)
next
  assume h: "is_tag tg \<and> trim (pre @ rest) = [] \<and> 10 \<notin> set pre \<and> 10 \<notin> set rest"
  then have nl: "10 \<notin> set (pre @ tg @ rest)"
    using is_tag_no_newline [of tg] by simp
  from h have d: "\<And>result. parseLrc_line (pre @ tg @ rest) result = result"
    by (simp add: parseLrc_line_blank)
  show "parseLrc (pre @ tg @ rest) = []"
    using nl d by (simp add: parseLrc_single_line)
  show "parseLrc (a @ [10] @ (pre @ tg @ rest) @ [10] @ b) = parseLrc (a @ [10] @ b)"
    using d nl by (rule parseLrc_drop_line)
next
  show "sorted (map time (parseLrc s))" by (rule parseLrc_sorted)
next
  show "\<forall>c \<in> set (parseLrc s). text c \<noteq> [] \<and> 0 \<le> time c" by (rule parseLrc_cues)
qed

theorem parseLrc_total_sorted_witness:
  "\<not> has_tag (js ''junk'') \<and> 10 \<notin> set (js ''junk'')
   \<and> parseLrc (js ''[00:02.00]B'' @ [10] @ js ''junk'' @ [10] @ js ''[00:01.00]A'')
       = parseLrc (js ''[00:02.00]B'' @ [10] @ js ''[00:01.00]A'')
   \<and> is_tag (js ''[00:01.50]'') \<and> trim ([32] @ [9, 13]) = []
   \<and> parseLrc ([32] @ js ''[00:01.50]'' @ [9, 13]) = []
   \<and> map time (parseLrc (js ''[00:02.00]B'' @ [10] @ js ''[00:01.00]A'')) = [1, 2]
   \<and> sorted (map time (parseLrc (js ''[00:02.00]B'' @ [10] @ js ''[00:01.00]A'')))"
proof -
  have n: "\<not> has_tag (js ''junk'')"
    using has_tag_length [of "js ''junk''"] by (auto simp: js_def)
  have l: "10 \<notin> set (js ''junk'')" by (simp add: js_def)
  have g: "is_tag (js ''[00:01.50]'')"
    using is_tag_intro [of 48 48 48 49 46 "[53, 48]"] by (simp add: js_def isDigit_def)
  have w: "trim ([32] @ [9, 13]) = []" by (simp add: trim_def isWhiteSpace_def)
  have m: "map time (parseLrc (js ''[00:02.00]B'' @ [10] @ js ''[00:01.00]A'')) = [1, 2]"
    by (simp add: parseLrc_eval)
  from parseLrc_total_sorted [of "js ''junk''" "js ''[00:02.00]B''" "js ''[00:01.00]A''"
      "js ''[00:01.50]''" "[32]" "[9, 13]" "js ''[00:02.00]B'' @ [10] @ js ''[00:01.00]A''"]
    n l g w m
  show ?thesis by simp
qed

text \<open>
  A line with a valid tag and nothing after it still contributes a cue when text stands
  before the tag: \<open>replace\<close> removes the tag and keeps the rest of the line.
\<close>

theorem parseLrc_leading_text_counterexample:
  "parseLrc (js ''x[00:01.50]'') = [\<lparr>time = 3 / 2, text = js ''x''\<rparr>]"
  by (simp add: parseLrc_eval)

section \<open>Scroll interpolation: facts\<close>

lemma scrollStep_cases:
  "(\<bar>of_int a - s\<bar> > 10 \<longrightarrow> scrollStep a s = of_int a)
   \<and> (\<bar>of_int a - s\<bar> < 1 / 1000 \<longrightarrow> scrollStep a s = of_int a)
   \<and> (\<not> \<bar>of_int a - s\<bar> > 10 \<and> \<not> \<bar>of_int a - s\<bar> < 1 / 1000 \<longrightarrow>
        scrollStep a s = s + (of_int a - s) * (1 / 10))"
  by (simp add: scrollStep_def Let_def)

lemma damp_bound_75: "(1 :: rat) / 1000 \<le> 3 * (9 / 10) ^ 75"
  by (simp add: power_divide)

lemma damp_bound_76: "3 * ((9 :: rat) / 10) ^ 76 < 1 / 1000"
  by (simp add: power_divide)

lemma damp_lower:
  assumes "n \<le> 75"
  shows "(1 :: rat) / 1000 \<le> 3 * (9 / 10) ^ n"
proof -
  have "((9 :: rat) / 10) ^ 75 \<le> (9 / 10) ^ n"
    using assms by (intro power_decreasing) simp_all
  with damp_bound_75 show ?thesis by linarith
qed

lemma damp_upper: "3 * ((9 :: rat) / 10) ^ n \<le> 3"
proof -
  have "((9 :: rat) / 10) ^ n \<le> 1" by (intro power_le_one) simp_all
  then show ?thesis by linarith
qed

lemma scroll_formula:
  "n \<le> 76 \<Longrightarrow> ((scrollStep 3) ^^ n) 0 = 3 - 3 * (9 / 10) ^ n"
proof (induction n)
  case 0
  show ?case by simp
next
  case (Suc n)
  then have n: "n \<le> 75" and ih: "((scrollStep 3) ^^ n) 0 = 3 - 3 * (9 / 10) ^ n" by simp_all
  let ?d = "3 * ((9 :: rat) / 10) ^ n"
  have pos: "0 \<le> ?d" by simp
  have "scrollStep 3 (3 - ?d) = (3 - ?d) + ?d * (1 / 10)"
    using damp_lower [OF n] damp_upper [of n] pos
    by (simp add: scrollStep_def Let_def)
  then show ?case by (simp add: ih)
qed

lemma scroll_76: "\<bar>((scrollStep 3) ^^ 76) 0 - 3\<bar> < 1 / 1000"
proof -
  have "((scrollStep 3) ^^ 76) 0 = 3 - 3 * (9 / 10) ^ 76" by (rule scroll_formula) simp
  moreover have "0 \<le> 3 * ((9 :: rat) / 10) ^ 76" by simp
  ultimately show ?thesis using damp_bound_76 by linarith
qed

lemma scroll_77: "((scrollStep 3) ^^ 77) 0 = 3"
proof -
  have "((scrollStep 3) ^^ 77) 0 = scrollStep 3 (((scrollStep 3) ^^ 76) 0)"
    by (simp add: eval_nat_numeral)
  also have "\<dots> = 3" using scroll_76 by (simp add: scrollStep_def Let_def abs_minus_commute)
  finally show ?thesis .
qed

lemma scroll_fixed: "scrollStep 3 3 = 3"
  by (simp add: scrollStep_def)

lemma scroll_after_77: "77 \<le> n \<Longrightarrow> ((scrollStep 3) ^^ n) 0 = 3"
proof (induction n)
  case 0
  then show ?case by simp
next
  case (Suc n)
  show ?case
  proof (cases "Suc n = 77")
    case True
    then show ?thesis using scroll_77 by simp
  next
    case False
    with Suc.prems have "77 \<le> n" by simp
    with Suc.IH show ?thesis by (simp add: scroll_fixed)
  qed
qed

text \<open>
  C4. The step computes \<open>diff = activeIndex - smoothIndex\<close> and sets \<open>smoothIndex\<close> to
  \<open>activeIndex\<close> when \<open>|diff| > 10\<close>, to \<open>activeIndex\<close> when \<open>|diff| < 0.001\<close>, and
  to \<open>smoothIndex + diff * 0.1\<close> otherwise. Starting from 0 with the constant target 3,
  the value after \<open>n \<le> 76\<close> ticks is \<open>3 - 3 * 0.9 ^ n\<close>; from tick 76 on it is within
  0.001 of 3, and from tick 77 on it is exactly 3. A step with
  \<open>activeIndex - smoothIndex = 15\<close> sets \<open>smoothIndex\<close> to \<open>activeIndex\<close> at once.
\<close>

theorem scrollStep_converges:
  "(\<bar>of_int a - s\<bar> > 10 \<longrightarrow> scrollStep a s = of_int a)
   \<and> (\<bar>of_int a - s\<bar> < 1 / 1000 \<longrightarrow> scrollStep a s = of_int a)
   \<and> (\<not> \<bar>of_int a - s\<bar> > 10 \<and> \<not> \<bar>of_int a - s\<bar> < 1 / 1000 \<longrightarrow>
        scrollStep a s = s + (of_int a - s) * (1 / 10))
   \<and> (n \<le> 76 \<longrightarrow> ((scrollStep 3) ^^ n) 0 = 3 - 3 * (9 / 10) ^ n)
   \<and> (76 \<le> n \<longrightarrow> \<bar>((scrollStep 3) ^^ n) 0 - 3\<bar> < 1 / 1000)
   \<and> (77 \<le> n \<longrightarrow> ((scrollStep 3) ^^ n) 0 = 3)
   \<and> (of_int a - s = 15 \<longrightarrow> scrollStep a s = of_int a)"
proof (intro conjI impI)
  assume "76 \<le> n"
  then consider "n = 76" | "77 \<le> n" by linarith
  then show "\<bar>((scrollStep 3) ^^ n) 0 - 3\<bar> < 1 / 1000"
  proof cases
    case 1
    then show ?thesis using scroll_76 by simp
  next
    case 2
    then show ?thesis by (simp add: scroll_after_77)
  qed
qed (simp_all add: scrollStep_cases scroll_formula scroll_after_77 scrollStep_def)

theorem scrollStep_converges_witness:
  "scrollStep 15 0 = 15 \<and> scrollStep 3 (29991 / 10000) = 3
   \<and> scrollStep 3 0 = 3 / 10 \<and> ((scrollStep 3) ^^ 2) 0 = 57 / 100
   \<and> \<bar>((scrollStep 3) ^^ 76) 0 - 3\<bar> < 1 / 1000 \<and> ((scrollStep 3) ^^ 77) 0 = 3"
proof -
  from scrollStep_converges [of 15 0 2]
  have a: "scrollStep 15 0 = 15" and b: "((scrollStep 3) ^^ 2) 0 = 57 / 100"
    by (simp_all add: power2_eq_square)
  from scrollStep_converges [of 3 "29991 / 10000" 76]
  have c: "scrollStep 3 (29991 / 10000) = 3"
    and d: "\<bar>((scrollStep 3) ^^ 76) 0 - 3\<bar> < 1 / 1000"
    by (simp_all add: power_divide)
  from scrollStep_converges [of 3 0 77]
  have e: "scrollStep 3 0 = 3 / 10" and f: "((scrollStep 3) ^^ 77) 0 = 3"
    by simp_all
  from a b c d e f show ?thesis by blast
qed

section \<open>Text wrapping: facts\<close>

lemma js_join_Cons: "ys \<noteq> [] \<Longrightarrow> js_join sep (x # ys) = x @ [sep] @ js_join sep ys"
  by (cases ys) simp_all

lemma js_join_snoc: "xs \<noteq> [] \<Longrightarrow> js_join sep (xs @ [y]) = js_join sep xs @ [sep] @ y"
proof (induction xs)
  case Nil
  then show ?case by simp
next
  case (Cons x xs)
  show ?case
  proof (cases "xs = []")
    case True
    then show ?thesis by simp
  next
    case False
    with Cons.IH show ?thesis by (simp add: js_join_Cons)
  qed
qed

lemma js_join_merge:
  "js_join sep (xs @ [a @ [sep] @ b] @ ys) = js_join sep (xs @ [a, b] @ ys)"
proof (induction xs)
  case Nil
  show ?case by (cases ys) simp_all
next
  case (Cons x xs)
  then show ?case by (simp add: js_join_Cons)
qed

lemma wrap_loop_join:
  "js_join 32 (wrap_loop m mw ws lines cur) = js_join 32 (lines @ [cur] @ ws)"
proof (induction ws arbitrary: lines cur)
  case Nil
  show ?case by simp
next
  case (Cons w ws)
  show ?case
  proof (cases "m (cur @ [32] @ w) < mw")
    case True
    then have "js_join 32 (wrap_loop m mw (w # ws) lines cur)
                 = js_join 32 (lines @ [cur @ [32] @ w] @ ws)"
      using Cons.IH [of lines "cur @ [32] @ w"] by (simp add: Let_def)
    also have "\<dots> = js_join 32 (lines @ [cur, w] @ ws)" by (rule js_join_merge)
    finally show ?thesis by simp
  next
    case False
    then show ?thesis using Cons.IH [of "lines @ [cur]" w] by (simp add: Let_def)
  qed
qed

lemma wrap_loop_nonempty: "wrap_loop m mw ws lines cur \<noteq> []"
  by (induction ws arbitrary: lines cur) (simp_all add: Let_def)

lemma hd_tl_split: "hd (js_split sep s) # tl (js_split sep s) = js_split sep s"
  using js_split_nonempty [of sep s] by simp

text \<open>
  C10. For every text and every measurement function, \<open>getWrappedLines\<close> returns at
  least one line, and joining the returned lines with a single space gives the input
  text back.
\<close>

theorem getWrappedLines_join:
  "getWrappedLines measureText txt maxWidth \<noteq> []
   \<and> js_join 32 (getWrappedLines measureText txt maxWidth) = txt"
proof
  show "getWrappedLines measureText txt maxWidth \<noteq> []"
    by (simp add: getWrappedLines_def Let_def wrap_loop_nonempty)
  have "js_join 32 (getWrappedLines measureText txt maxWidth)
          = js_join 32 (hd (js_split 32 txt) # tl (js_split 32 txt))"
    by (simp add: getWrappedLines_def Let_def wrap_loop_join)
  also have "\<dots> = txt" by (simp only: hd_tl_split js_join_split)
  finally show "js_join 32 (getWrappedLines measureText txt maxWidth) = txt" .
qed

lemma wrap_loop_groups:
  assumes "g \<noteq> []" and "length g = 1 \<or> m (js_join 32 g) < mw"
  shows "\<exists>gs. wrap_loop m mw ws lines (js_join 32 g) = lines @ map (js_join 32) gs
              \<and> concat gs = g @ ws
              \<and> (\<forall>h \<in> set gs. h \<noteq> [] \<and> (length h = 1 \<or> m (js_join 32 h) < mw))"
  using assms
proof (induction ws arbitrary: lines g)
  case Nil
  then have "wrap_loop m mw [] lines (js_join 32 g) = lines @ map (js_join 32) [g]
              \<and> concat [g] = g @ []
              \<and> (\<forall>h \<in> set [g]. h \<noteq> [] \<and> (length h = 1 \<or> m (js_join 32 h) < mw))"
    by simp
  then show ?case by blast
next
  case (Cons w ws)
  show ?case
  proof (cases "m (js_join 32 g @ [32] @ w) < mw")
    case True
    have j: "js_join 32 (g @ [w]) = js_join 32 g @ [32] @ w"
      using Cons.prems(1) by (rule js_join_snoc)
    have "g @ [w] \<noteq> []" by simp
    moreover have "length (g @ [w]) = 1 \<or> m (js_join 32 (g @ [w])) < mw"
      using True j by simp
    ultimately obtain gs where
      gs: "wrap_loop m mw ws lines (js_join 32 (g @ [w])) = lines @ map (js_join 32) gs"
        "concat gs = (g @ [w]) @ ws"
        "\<forall>h \<in> set gs. h \<noteq> [] \<and> (length h = 1 \<or> m (js_join 32 h) < mw)"
      using Cons.IH [of "g @ [w]" lines] by blast
    have "wrap_loop m mw (w # ws) lines (js_join 32 g) = lines @ map (js_join 32) gs"
      using True gs(1) j by (simp add: Let_def)
    with gs(2,3) show ?thesis by auto
  next
    case False
    have "[w] \<noteq> []" "length [w] = 1 \<or> m (js_join 32 [w]) < mw" by simp_all
    then obtain gs where
      gs: "wrap_loop m mw ws (lines @ [js_join 32 g]) (js_join 32 [w])
             = (lines @ [js_join 32 g]) @ map (js_join 32) gs"
        "concat gs = [w] @ ws"
        "\<forall>h \<in> set gs. h \<noteq> [] \<and> (length h = 1 \<or> m (js_join 32 h) < mw)"
      using Cons.IH [of "[w]" "lines @ [js_join 32 g]"] by blast
    have "wrap_loop m mw (w # ws) lines (js_join 32 g) = lines @ map (js_join 32) (g # gs)"
      using False gs(1) by (simp add: Let_def)
    moreover have "concat (g # gs) = g @ w # ws" using gs(2) by simp
    moreover have "\<forall>h \<in> set (g # gs). h \<noteq> [] \<and> (length h = 1 \<or> m (js_join 32 h) < mw)"
      using gs(3) Cons.prems by simp
    ultimately show ?thesis by blast
  qed
qed

text \<open>
  C8. For every text, every \<open>maxWidth\<close> and every measurement function (monotone or
  not), the returned lines are the space-joined groups of a partition of the word list
  into consecutive non-empty groups, so no word is split across lines; and a line whose
  measured width is \<open>maxWidth\<close> or more consists of a single word.
\<close>

theorem getWrappedLines_width:
  "\<exists>gs. getWrappedLines measureText txt maxWidth = map (js_join 32) gs
        \<and> concat gs = js_split 32 txt
        \<and> (\<forall>g \<in> set gs. g \<noteq> []
              \<and> (maxWidth \<le> measureText (js_join 32 g) \<longrightarrow> length g = 1))"
proof -
  let ?w = "hd (js_split 32 txt)"
  have "[?w] \<noteq> []" "length [?w] = 1 \<or> measureText (js_join 32 [?w]) < maxWidth" by simp_all
  then obtain gs where
    gs: "wrap_loop measureText maxWidth (tl (js_split 32 txt)) [] (js_join 32 [?w])
           = [] @ map (js_join 32) gs"
      "concat gs = [?w] @ tl (js_split 32 txt)"
      "\<forall>h \<in> set gs. h \<noteq> [] \<and> (length h = 1 \<or> measureText (js_join 32 h) < maxWidth)"
    using wrap_loop_groups [of "[?w]" measureText maxWidth "tl (js_split 32 txt)" "[]"] by blast
  have "getWrappedLines measureText txt maxWidth = map (js_join 32) gs"
    using gs(1) by (simp add: getWrappedLines_def Let_def)
  moreover have "concat gs = js_split 32 txt"
    using gs(2) hd_tl_split [of 32 "txt"] by simp
  moreover have "\<forall>g \<in> set gs. g \<noteq> []
              \<and> (maxWidth \<le> measureText (js_join 32 g) \<longrightarrow> length g = 1)"
    using gs(3) by auto
  ultimately show ?thesis by blast
qed

lemma wrap_example:
  "getWrappedLines (\<lambda>s. of_nat (length s)) (js ''aa bbbbbbbb cc dd'') 6
     = [js ''aa'', js ''bbbbbbbb'', js ''cc dd'']"
  by (simp add: getWrappedLines_def js_def Let_def)

theorem getWrappedLines_width_witness:
  "getWrappedLines (\<lambda>s. of_nat (length s)) (js ''aa bbbbbbbb cc dd'') 6
     = map (js_join 32) [[js ''aa''], [js ''bbbbbbbb''], [js ''cc'', js ''dd'']]
   \<and> concat [[js ''aa''], [js ''bbbbbbbb''], [js ''cc'', js ''dd'']]
       = js_split 32 (js ''aa bbbbbbbb cc dd'')
   \<and> (6 :: rat) \<le> of_nat (length (js_join 32 [js ''bbbbbbbb'']))
   \<and> length [js ''bbbbbbbb''] = 1"
proof -
  from getWrappedLines_width [of "\<lambda>s. of_nat (length s)" "js ''aa bbbbbbbb cc dd''" 6]
  obtain gs where "getWrappedLines (\<lambda>s. of_nat (length s)) (js ''aa bbbbbbbb cc dd'') 6
     = map (js_join 32) gs" by blast
  then show ?thesis by (simp add: wrap_example) (simp add: js_def)
qed

section \<open>Lyric colour: facts\<close>

lemmas color_eval =
  lyric_color_def lyric_color_spec_def interpolateColor_def hexToRgb_def shorthand_replace_def
  strip_hash_def isHexDigit_def hexVal_def parseInt16_def Math_round_def int_string_def
  DEFAULT_SETTINGS_def js_def Let_def

lemma scroll_five_ticks: "((scrollStep 1) ^^ 5) 0 = 40951 / 100000"
  by (simp add: eval_nat_numeral scrollStep_def)

lemma hexToRgb_primary: "hexToRgb (js ''#38bdf8'') = \<lparr>rgb_r = 56, rgb_g = 189, rgb_b = 248\<rparr>"
  by (simp add: color_eval)

lemma hexToRgb_secondary: "hexToRgb (js ''#94a3b8'') = \<lparr>rgb_r = 148, rgb_g = 163, rgb_b = 184\<rparr>"
  by (simp add: color_eval)

lemma Math_round_eq: "of_int z \<le> x + 1 / 2 \<Longrightarrow> x + 1 / 2 < of_int z + 1 \<Longrightarrow> Math_round x = z"
  unfolding Math_round_def by (rule floor_unique)

lemma rgb_text_code: "js ''rgb('' @ int_string 146 @ js '', '' @ int_string 164 @ js '', '' @ int_string 185 @ js '')'' = js ''rgb(146, 164, 185)''"
  by (simp add: js_def int_string_def)

lemma rgb_text_spec: "js ''rgb('' @ int_string 147 @ js '', '' @ int_string 163 @ js '', '' @ int_string 185 @ js '')'' = js ''rgb(147, 163, 185)''"
  by (simp add: js_def int_string_def)

lemma interpolate_code: "interpolateColor (js ''#38bdf8'') (js ''#94a3b8'') ((59049 / 100000) * (166 / 100)) = js ''rgb(146, 164, 185)''"
proof -
  let ?f = "(59049 / 100000) * (166 / 100) :: rat"
  have f: "max 0 (min 1 ?f) = ?f" by simp
  have r: "Math_round (of_nat 56 + (of_nat 148 - of_nat 56) * ?f) = 146"
    by (rule Math_round_eq) simp_all
  have g: "Math_round (of_nat 189 + (of_nat 163 - of_nat 189) * ?f) = 164"
    by (rule Math_round_eq) simp_all
  have b: "Math_round (of_nat 248 + (of_nat 184 - of_nat 248) * ?f) = 185"
    by (rule Math_round_eq) simp_all
  show ?thesis
    unfolding interpolateColor_def Let_def hexToRgb_primary hexToRgb_secondary f rgb.simps r g b by (rule rgb_text_code)
qed

lemma interpolate_spec: "interpolateColor (js ''#38bdf8'') (js ''#94a3b8'') ((59049 / 100000) * (1667 / 1000)) = js ''rgb(147, 163, 185)''"
proof -
  let ?f = "(59049 / 100000) * (1667 / 1000) :: rat"
  have f: "max 0 (min 1 ?f) = ?f" by simp
  have r: "Math_round (of_nat 56 + (of_nat 148 - of_nat 56) * ?f) = 147"
    by (rule Math_round_eq) simp_all
  have g: "Math_round (of_nat 189 + (of_nat 163 - of_nat 189) * ?f) = 163"
    by (rule Math_round_eq) simp_all
  have b: "Math_round (of_nat 248 + (of_nat 184 - of_nat 248) * ?f) = 185"
    by (rule Math_round_eq) simp_all
  show ?thesis
    unfolding interpolateColor_def Let_def hexToRgb_primary hexToRgb_secondary f rgb.simps r g b by (rule rgb_text_spec)
qed

lemma lyric_color_far:
  "6 / 10 \<le> \<bar>of_nat i - smoothActiveIndex\<bar> \<Longrightarrow>
   lyric_color settings i smoothActiveIndex = secondaryColor settings"
  by (simp add: lyric_color_def Let_def)

text \<open>
  C7. With the default settings, five ticks after the active index has moved from 0 to
  1 the smoothed index is 0.40951, so line 1 is at distance 0.59049. \<open>renderFrame\<close>
  multiplies by 1.66 and draws the line in \<open>rgb(146, 164, 185)\<close>; the factor 1.667 of
  the claim gives \<open>rgb(147, 163, 185)\<close>.
\<close>

theorem lyric_color_factor_166:
  "lyric_color DEFAULT_SETTINGS 1 (((scrollStep 1) ^^ 5) 0) = js ''rgb(146, 164, 185)''
   \<and> lyric_color_spec DEFAULT_SETTINGS 1 (((scrollStep 1) ^^ 5) 0) = js ''rgb(147, 163, 185)''
   \<and> lyric_color DEFAULT_SETTINGS 1 (((scrollStep 1) ^^ 5) 0)
       \<noteq> lyric_color_spec DEFAULT_SETTINGS 1 (((scrollStep 1) ^^ 5) 0)"
proof -
  have d: "\<bar>of_nat 1 - (40951 / 100000 :: rat)\<bar> = 59049 / 100000" by simp
  have lt: "(59049 / 100000 :: rat) < 6 / 10" by simp
  have p: "primaryColor DEFAULT_SETTINGS = js ''#38bdf8''"
    and q: "secondaryColor DEFAULT_SETTINGS = js ''#94a3b8''"
    by (simp_all add: DEFAULT_SETTINGS_def)
  have a: "lyric_color DEFAULT_SETTINGS 1 (((scrollStep 1) ^^ 5) 0) = js ''rgb(146, 164, 185)''"
    unfolding lyric_color_def Let_def scroll_five_ticks d p q using lt interpolate_code by simp
  have b: "lyric_color_spec DEFAULT_SETTINGS 1 (((scrollStep 1) ^^ 5) 0) = js ''rgb(147, 163, 185)''"
    unfolding lyric_color_spec_def Let_def scroll_five_ticks d p q using lt interpolate_spec by simp
  have "js ''rgb(146, 164, 185)'' \<noteq> js ''rgb(147, 163, 185)''" by (simp add: js_def)
  with a b show ?thesis by simp
qed

section \<open>Bokeh particles: facts\<close>

lemma drawBokeh_body_painted:
  "painted (drawBokeh_body M w h t s i ctx)
     = painted ctx @ [([Arc (particle_x (bokehParticle M w h t s i))
                            (particle_y (bokehParticle M w h t s i))
                            (particle_radius (bokehParticle M w h t s i)) 0 (Math_PI * 2)],
                       (drawingState ctx)\<lparr>fillStyle :=
                          FillGradient (particle_gradient (bokehParticle M w h t s i))\<rparr>)]"
  by (simp add: drawBokeh_body_def Let_def ctx_fill_def ctx_arc_def ctx_beginPath_def
      set_fillStyle_def)

lemma drawBokeh_body_state:
  "globalCompositeOperation (drawingState (drawBokeh_body M w h t s i ctx))
     = globalCompositeOperation (drawingState ctx)
   \<and> stateStack (drawBokeh_body M w h t s i ctx) = stateStack ctx"
  by (simp add: drawBokeh_body_def Let_def ctx_fill_def ctx_arc_def ctx_beginPath_def
      set_fillStyle_def)

lemma drawBokeh_loop:
  assumes "globalCompositeOperation (drawingState ctx) = js ''screen''"
  shows "painted (fold (drawBokeh_body M w h t s) is ctx)
           = painted ctx @ map (bokeh_spot M w h t s) is
         \<and> globalCompositeOperation (drawingState (fold (drawBokeh_body M w h t s) is ctx))
             = js ''screen''
         \<and> stateStack (fold (drawBokeh_body M w h t s) is ctx) = stateStack ctx"
  using assms
proof (induction "is" arbitrary: ctx)
  case Nil
  then show ?case by simp
next
  case (Cons i "is")
  let ?c = "drawBokeh_body M w h t s i ctx"
  have g: "globalCompositeOperation (drawingState ?c) = js ''screen''"
    using Cons.prems drawBokeh_body_state [of M w h t s i ctx] by simp
  have p: "painted ?c = painted ctx @ [bokeh_spot M w h t s i]"
  proof -
    have "(drawingState ctx)\<lparr>fillStyle := FillGradient (particle_gradient (bokehParticle M w h t s i))\<rparr>
            = \<lparr>globalCompositeOperation = js ''screen'',
               fillStyle = FillGradient (particle_gradient (bokehParticle M w h t s i))\<rparr>"
      using Cons.prems by (cases "drawingState ctx") simp
    then show ?thesis
      by (simp add: drawBokeh_body_painted bokeh_spot_def Let_def)
  qed
  have k: "stateStack ?c = stateStack ctx"
    using drawBokeh_body_state [of M w h t s i ctx] by simp
  from Cons.IH [OF g] p k show ?case by simp
qed

lemma drawBokeh_painted:
  "painted (drawBokeh M ctx w h t s) = painted ctx @ map (bokeh_spot M w h t s) [0..<15]
   \<and> drawingState (drawBokeh M ctx w h t s) = drawingState ctx
   \<and> stateStack (drawBokeh M ctx w h t s) = stateStack ctx"
proof -
  let ?c0 = "set_globalCompositeOperation (js ''screen'') (ctx_save ctx)"
  let ?c1 = "fold (drawBokeh_body M w h t s) [0..<15] ?c0"
  have g: "globalCompositeOperation (drawingState ?c0) = js ''screen''"
    by (simp add: set_globalCompositeOperation_def ctx_save_def)
  from drawBokeh_loop [OF g, of M w h t s "[0..<15]"]
  have p: "painted ?c1 = painted ?c0 @ map (bokeh_spot M w h t s) [0..<15]"
    and k: "stateStack ?c1 = stateStack ?c0" by simp_all
  have p0: "painted ?c0 = painted ctx"
    and k0: "stateStack ?c0 = drawingState ctx # stateStack ctx"
    by (simp_all add: set_globalCompositeOperation_def ctx_save_def)
  have d: "drawBokeh M ctx w h t s = ctx_restore ?c1"
    by (simp add: drawBokeh_def Let_def)
  show ?thesis
    unfolding d using p k p0 k0 by (simp add: ctx_restore_def)
qed

text \<open>
  C9. \<open>drawBokeh\<close> paints exactly 15 particles, and what it paints is a function of
  \<open>(width, height, time, settings)\<close> (\<open>absTime\<close> is the parameter \<open>time\<close>) and the particle's index alone: whatever the
  canvas held and whatever its drawing state was before the call (\<open>ctx1\<close>, \<open>ctx2\<close>),
  two calls with the same arguments add the same fills, with the same positions, radii,
  alphas and colours; the drawing state and the state stack are as before the call.
\<close>

theorem drawBokeh_deterministic:
  "drop (length (painted ctx1)) (painted (drawBokeh M ctx1 width height absTime settings))
     = drop (length (painted ctx2)) (painted (drawBokeh M ctx2 width height absTime settings))
   \<and> painted (drawBokeh M ctx1 width height absTime settings)
       = painted ctx1 @ map (bokeh_spot M width height absTime settings) [0..<15]
   \<and> length (map (bokeh_spot M width height absTime settings) [0..<15]) = 15
   \<and> drawingState (drawBokeh M ctx1 width height absTime settings) = drawingState ctx1
   \<and> stateStack (drawBokeh M ctx1 width height absTime settings) = stateStack ctx1"
  using drawBokeh_painted [of M ctx1 width height absTime settings]
    drawBokeh_painted [of M ctx2 width height absTime settings]
  by simp

lemma bokeh_radius_positive:
  assumes "\<And>x. \<bar>Math_sin M x\<bar> \<le> 1" and "0 \<le> bokehScale settings"
  shows "30 \<le> particle_radius (bokehParticle M width height absTime settings i)"
proof -
  have s: "\<And>x. - 1 \<le> Math_sin M x" using assms(1) by (simp add: abs_le_iff) 
  show ?thesis
  proof (cases "bokehAutoSize settings")
    case True
    let ?x = "(absTime * (2 / 10000 + of_nat ((i * 1337) mod 1000 mod 100) * (1 / 100000))
                + of_nat ((i * 1337) mod 1000)) * 2"
    have "- 1 \<le> Math_sin M ?x" by (rule s)
    then have "70 \<le> 150 + Math_sin M ?x * 80" by simp
    moreover have "(0 :: rat) \<le> of_nat ((i * 1337) mod 1000 mod 100)" by simp
    ultimately show ?thesis using True by (simp add: bokehParticle_def Let_def)
  next
    case False
    let ?x = "(absTime * (2 / 10000 + of_nat ((i * 1337) mod 1000 mod 100) * (1 / 100000))
                + of_nat ((i * 1337) mod 1000)) * 3"
    have "- 1 \<le> Math_sin M ?x" by (rule s)
    then have "- 20 \<le> Math_sin M ?x * 20" by simp
    then show ?thesis using False assms(2) by (simp add: bokehParticle_def Let_def)
  qed
qed

section \<open>The recording controller: facts\<close>

lemma startRecording_setup:
  "startRecording env s =
     (if \<not> canvasRef s \<or> \<not> audioRef s then Returned s
      else and_then (startSetup env s) (startCapture env))"
  by (simp add: startRecording_def startSetup_def)

lemma controller_frame_refl: "controller_frame s s"
  by (simp add: controller_frame_def)

lemma controller_frame_trans:
  "controller_frame s s1 \<Longrightarrow> controller_frame s1 s2 \<Longrightarrow> controller_frame s s2"
  by (simp add: controller_frame_def)

lemma and_then_frame:
  assumes "controller_frame s (outcome_state r)"
    and "\<And>s1. controller_frame s1 (outcome_state (f s1))"
  shows "controller_frame s (outcome_state (and_then r f))"
proof (cases r)
  case (Returned s1)
  with assms(1) have "controller_frame s s1" by simp
  with assms(2) [of s1] Returned show ?thesis
    by (simp add: controller_frame_trans [of s s1])
next
  case (Rejected s1)
  with assms(1) show ?thesis by simp
qed

lemma frame_ensureAudioContext: "controller_frame s (outcome_state (ensureAudioContext env s))"
  by (simp add: ensureAudioContext_def controller_frame_def split: option.splits)

lemma frame_resumeIfSuspended: "controller_frame s (outcome_state (resumeIfSuspended env s))"
  by (simp add: resumeIfSuspended_def controller_frame_def)

lemma frame_ensureDestination: "controller_frame s (outcome_state (ensureDestination env s))"
  by (simp add: ensureDestination_def controller_frame_def)

lemma frame_connectAudioElement: "controller_frame s (outcome_state (connectAudioElement env s))"
  by (simp add: connectAudioElement_def controller_frame_def)

lemma frame_startSilence: "controller_frame s (outcome_state (startSilence env s))"
  by (simp add: startSilence_def controller_frame_def)

lemma frame_setupStream: "controller_frame s (outcome_state (setupStream env s))"
  by (simp add: setupStream_def controller_frame_def)

lemma frame_startSetup: "controller_frame s (outcome_state (startSetup env s))"
  unfolding startSetup_def
  by (intro and_then_frame frame_ensureAudioContext frame_resumeIfSuspended
      frame_ensureDestination frame_connectAudioElement frame_startSilence frame_setupStream)

lemma and_then_Returned:
  "and_then r f = Returned s' \<longleftrightarrow> (\<exists>s1. r = Returned s1 \<and> f s1 = Returned s')"
  by (cases r) simp_all

lemma and_then_Rejected:
  "and_then r f = Rejected s' \<longleftrightarrow> r = Rejected s' \<or> (\<exists>s1. r = Returned s1 \<and> f s1 = Rejected s')"
  by (cases r) auto

lemma ensureAudioContext_cases:
  "(audioContextRef s = None \<and> env_newAudioContext env = None
      \<and> ensureAudioContext env s = Rejected s)
   \<or> (\<not> (audioContextRef s = None \<and> env_newAudioContext env = None)
      \<and> (\<exists>s1. ensureAudioContext env s = Returned s1 \<and> audioContextRef s1 \<noteq> None
            \<and> audioDestNodeRef s1 = audioDestNodeRef s
            \<and> audioContextRef s1 = (case audioContextRef s of None \<Rightarrow> env_newAudioContext env | Some a \<Rightarrow> Some a)
            \<and> consoleLog s1 = consoleLog s))"
  by (auto simp: ensureAudioContext_def split: option.splits)

lemma resumeIfSuspended_cases:
  "\<exists>s1. resumeIfSuspended env s = Returned s1 \<and> audioDestNodeRef s1 = audioDestNodeRef s
     \<and> consoleLog s1 = consoleLog s @
          (if audioContextRef s = Some suspended \<and> env_resumeRejects env
           then [js ''Could not resume audio context''] else [])"
  by (simp add: resumeIfSuspended_def)

lemma ensureDestination_cases:
  "(\<not> audioDestNodeRef s \<and> env_createDestinationThrows env \<and> ensureDestination env s = Rejected s)
   \<or> (\<not> (\<not> audioDestNodeRef s \<and> env_createDestinationThrows env)
        \<and> (\<exists>s1. ensureDestination env s = Returned s1 \<and> consoleLog s1 = consoleLog s))"
  by (simp add: ensureDestination_def)

lemma connectAudioElement_cases:
  "\<exists>s1. connectAudioElement env s = Returned s1
     \<and> (\<exists>extra. consoleLog s1 = consoleLog s @ extra)"
  by (simp add: connectAudioElement_def)

lemma startSilence_cases:
  "(env_createOscillatorThrows env \<and> startSilence env s = Rejected s)
   \<or> (\<not> env_createOscillatorThrows env
        \<and> (\<exists>s1. startSilence env s = Returned s1 \<and> silenceOscRef s1
              \<and> consoleLog s1 = consoleLog s))"
  by (simp add: startSilence_def)

lemma setupStream_cases:
  "(env_captureStreamThrows env \<and> setupStream env s = Rejected s)
   \<or> (\<not> env_captureStreamThrows env \<and> setupStream env s = Returned s)"
  by (simp add: setupStream_def)

lemma startSetup_outcome:
  "(start_rejects env s \<longrightarrow> (\<exists>s'. startSetup env s = Rejected s'))
   \<and> (\<not> start_rejects env s \<longrightarrow> (\<exists>s'. startSetup env s = Returned s' \<and> silenceOscRef s'))"
proof -
  consider (a) "audioContextRef s = None \<and> env_newAudioContext env = None"
    | (b) s1 where "ensureAudioContext env s = Returned s1"
        "\<not> (audioContextRef s = None \<and> env_newAudioContext env = None)"
        "audioDestNodeRef s1 = audioDestNodeRef s"
    using ensureAudioContext_cases [of s env] by blast
  then show ?thesis
  proof cases
    case a
    then have "ensureAudioContext env s = Rejected s" by (simp add: ensureAudioContext_def)
    then have "startSetup env s = Rejected s" by (simp add: startSetup_def)
    with a show ?thesis by (auto simp: start_rejects_def)
  next
    case b
    obtain s2 where s2: "resumeIfSuspended env s1 = Returned s2"
        "audioDestNodeRef s2 = audioDestNodeRef s1"
      using resumeIfSuspended_cases [of env s1] by blast
    show ?thesis
    proof (cases "\<not> audioDestNodeRef s \<and> env_createDestinationThrows env")
      case True
      then have "ensureDestination env s2 = Rejected s2"
        using b(3) s2(2) by (simp add: ensureDestination_def)
      then have "startSetup env s = Rejected s2" using b(1) s2(1) by (simp add: startSetup_def)
      with True show ?thesis by (auto simp: start_rejects_def)
    next
      case False
      then obtain s3 where s3: "ensureDestination env s2 = Returned s3"
        using ensureDestination_cases [of s2 env] b(3) s2(2) by auto
      obtain s4 where s4: "connectAudioElement env s3 = Returned s4"
        using connectAudioElement_cases [of env s3] by blast
      have chain: "startSetup env s = and_then (startSilence env s4) (setupStream env)"
        using b(1) s2(1) s3 s4 by (simp add: startSetup_def)
      show ?thesis
      proof (cases "env_createOscillatorThrows env")
        case True
        then have "startSetup env s = Rejected s4" using chain by (simp add: startSilence_def)
        with True show ?thesis by (auto simp: start_rejects_def)
      next
        case osc: False
        then obtain s5 where s5: "startSilence env s4 = Returned s5" "silenceOscRef s5"
          using startSilence_cases [of env s4] by auto
        show ?thesis
        proof (cases "env_captureStreamThrows env")
          case True
          then have "startSetup env s = Rejected s5" using chain s5 by (simp add: setupStream_def)
          with True show ?thesis by (auto simp: start_rejects_def)
        next
          case False
          then have "startSetup env s = Returned s5" using chain s5 by (simp add: setupStream_def)
          with False osc \<open>\<not> (\<not> audioDestNodeRef s \<and> env_createDestinationThrows env)\<close> b(2) s5(2)
          show ?thesis by (auto simp: start_rejects_def)
        qed
      qed
    qed
  qed
qed

lemma startCapture_failure:
  assumes "env_recorderConstructorThrows env \<or> env_recorderStartThrows env"
  shows "\<exists>s'. startCapture env s = Returned s'
           \<and> alerts s' = alerts s @ [js ''Could not start recording. '' @ env_errorText env]
           \<and> recordingPhase s' = recordingPhase s \<and> isRecording s' = isRecording s
           \<and> downloadUrl s' = downloadUrl s \<and> isPlaying s' = isPlaying s
           \<and> audio_currentTime s' = audio_currentTime s \<and> audio_paused s' = audio_paused s
           \<and> (mediaRecorderRef s \<noteq> Some active \<longrightarrow>
                 mediaRecorderRef s' \<noteq> Some active \<and> orphanRecorders s' = orphanRecorders s)
           \<and> silenceOscRef s' = silenceOscRef s"
  using assms by (auto simp: startCapture_def recordingError_def Let_def)

lemma startCapture_success:
  assumes "\<not> env_recorderConstructorThrows env" and "\<not> env_recorderStartThrows env"
  shows "\<exists>s'. startCapture env s = Returned s'
           \<and> recordingPhase s' = intro \<and> isRecording s' \<and> alerts s' = alerts s
           \<and> consoleLog s' = consoleLog s
           \<and> mediaRecorderRef s' = Some active
           \<and> orphanRecorders s'
               = orphanRecorders s + (if mediaRecorderRef s = Some active then 1 else 0)"
  using assms by (simp add: startCapture_def Let_def)

text \<open>
  C5 (as amended). With the canvas and the audio element present: if constructing or
  starting the recorder fails, the start attempt ends with the alert
  \<open>Could not start recording. ...\<close>, and the phase, \<open>isRecording\<close>, the download
  URL, the playing flag and the audio position are as before (from \<open>idle\<close> the
  controller stays \<open>idle\<close>); if creating the audio context, the stream destination,
  the oscillator or the canvas stream fails, the call is rejected with the same fields
  unchanged. A failed resume of the audio context (and a failed connection of the audio
  element) is only logged: when nothing else fails, the attempt goes on and enters phase
  \<open>intro\<close>.
\<close>

theorem startRecording_failure:
  assumes "canvasRef s" and "audioRef s"
  shows "((env_recorderConstructorThrows env \<or> env_recorderStartThrows env)
            \<and> \<not> start_rejects env s \<longrightarrow>
          (\<exists>s'. startRecording env s = Returned s'
             \<and> alerts s' = alerts s @ [js ''Could not start recording. '' @ env_errorText env]
             \<and> recordingPhase s' = recordingPhase s \<and> isRecording s' = isRecording s
             \<and> downloadUrl s' = downloadUrl s \<and> isPlaying s' = isPlaying s
             \<and> audio_currentTime s' = audio_currentTime s
             \<and> audio_paused s' = audio_paused s))
       \<and> (start_rejects env s \<longrightarrow>
          (\<exists>s'. startRecording env s = Rejected s'
             \<and> recordingPhase s' = recordingPhase s \<and> isRecording s' = isRecording s
             \<and> downloadUrl s' = downloadUrl s \<and> isPlaying s' = isPlaying s
             \<and> audio_currentTime s' = audio_currentTime s
             \<and> audio_paused s' = audio_paused s))
       \<and> (\<not> start_rejects env s \<and> \<not> env_recorderConstructorThrows env
            \<and> \<not> env_recorderStartThrows env \<longrightarrow>
          (\<exists>s'. startRecording env s = Returned s'
             \<and> recordingPhase s' = intro \<and> isRecording s' \<and> alerts s' = alerts s))"
proof (intro conjI impI)
  assume h: "(env_recorderConstructorThrows env \<or> env_recorderStartThrows env)
               \<and> \<not> start_rejects env s"
  then obtain s1 where s1: "startSetup env s = Returned s1"
    using startSetup_outcome [of env s] by blast
  have f: "controller_frame s s1" using frame_startSetup [of s env] s1 by simp
  from h obtain s' where s': "startCapture env s1 = Returned s'"
      "alerts s' = alerts s1 @ [js ''Could not start recording. '' @ env_errorText env]"
      "recordingPhase s' = recordingPhase s1" "isRecording s' = isRecording s1"
      "downloadUrl s' = downloadUrl s1" "isPlaying s' = isPlaying s1"
      "audio_currentTime s' = audio_currentTime s1" "audio_paused s' = audio_paused s1"
    using startCapture_failure [of env s1] by blast
  have "startRecording env s = Returned s'"
    using assms s1 s'(1) by (simp add: startRecording_setup)
  with s'(2-8) f show "\<exists>s'. startRecording env s = Returned s'
             \<and> alerts s' = alerts s @ [js ''Could not start recording. '' @ env_errorText env]
             \<and> recordingPhase s' = recordingPhase s \<and> isRecording s' = isRecording s
             \<and> downloadUrl s' = downloadUrl s \<and> isPlaying s' = isPlaying s
             \<and> audio_currentTime s' = audio_currentTime s
             \<and> audio_paused s' = audio_paused s"
    by (simp add: controller_frame_def)
next
  assume "start_rejects env s"
  then obtain s1 where s1: "startSetup env s = Rejected s1"
    using startSetup_outcome [of env s] by blast
  have f: "controller_frame s s1" using frame_startSetup [of s env] s1 by simp
  have "startRecording env s = Rejected s1"
    using assms s1 by (simp add: startRecording_setup)
  with f show "\<exists>s'. startRecording env s = Rejected s'
             \<and> recordingPhase s' = recordingPhase s \<and> isRecording s' = isRecording s
             \<and> downloadUrl s' = downloadUrl s \<and> isPlaying s' = isPlaying s
             \<and> audio_currentTime s' = audio_currentTime s
             \<and> audio_paused s' = audio_paused s"
    by (simp add: controller_frame_def)
next
  assume h: "\<not> start_rejects env s \<and> \<not> env_recorderConstructorThrows env
            \<and> \<not> env_recorderStartThrows env"
  then obtain s1 where s1: "startSetup env s = Returned s1"
    using startSetup_outcome [of env s] by blast
  have f: "controller_frame s s1" using frame_startSetup [of s env] s1 by simp
  from h obtain s' where s': "startCapture env s1 = Returned s'"
      "recordingPhase s' = intro" "isRecording s'" "alerts s' = alerts s1"
    using startCapture_success [of env s1] by blast
  have "startRecording env s = Returned s'"
    using assms s1 s'(1) by (simp add: startRecording_setup)
  with s'(2-4) f show "\<exists>s'. startRecording env s = Returned s'
             \<and> recordingPhase s' = intro \<and> isRecording s' \<and> alerts s' = alerts s"
    by (simp add: controller_frame_def)
qed

lemmas start_defs =
  startRecording_def ensureAudioContext_def resumeIfSuspended_def ensureDestination_def
  connectAudioElement_def startSilence_def setupStream_def startCapture_def
  recordingError_def

lemma loaded_state_eq:
  "loaded_state =
     \<lparr>media_audioUrl = Some (js ''blob:a''), media_lyrics = [\<lparr>time = 1, text = js ''la''\<rparr>],
      isPlaying = False, isRecording = False,
      recordingPhase = idle, downloadUrl = None, canvasRef = True, audioRef = True,
      audio_currentTime = 0, audio_paused = True, mediaRecorderRef = None,
      orphanRecorders = 0, chunksRef = 0, audioContextRef = None,
      audioSourceNodeRef = False, audioDestNodeRef = False, silenceOscRef = False,
      orphanOscillators = 0, smoothIndexRef = 0, introStartTimeRef = 0, alerts = [],
      consoleLog = []\<rparr>"
  by (simp add: loaded_state_def loadAudio_def loadLyrics_def initial_state_def js_def)

theorem startRecording_failure_witness:
  "canvasRef loaded_state \<and> audioRef loaded_state
   \<and> \<not> start_rejects (env_ok\<lparr>env_recorderConstructorThrows := True\<rparr>) loaded_state
   \<and> recordingPhase (outcome_state
        (startRecording (env_ok\<lparr>env_recorderConstructorThrows := True\<rparr>) loaded_state)) = idle
   \<and> alerts (outcome_state
        (startRecording (env_ok\<lparr>env_recorderConstructorThrows := True\<rparr>) loaded_state))
       = [js ''Could not start recording. NotSupportedError'']
   \<and> start_rejects (env_ok\<lparr>env_captureStreamThrows := True\<rparr>) loaded_state
   \<and> recordingPhase (outcome_state
        (startRecording (env_ok\<lparr>env_captureStreamThrows := True\<rparr>) loaded_state)) = idle
   \<and> recordingPhase (outcome_state (startRecording env_ok loaded_state)) = intro"
proof -
  have c: "canvasRef loaded_state" and a: "audioRef loaded_state"
    and i: "recordingPhase loaded_state = idle" and l: "alerts loaded_state = []"
    by (simp_all add: loaded_state_eq)
  have n1: "\<not> start_rejects (env_ok\<lparr>env_recorderConstructorThrows := True\<rparr>) loaded_state"
    by (simp add: start_rejects_def env_ok_def loaded_state_eq)
  have r2: "start_rejects (env_ok\<lparr>env_captureStreamThrows := True\<rparr>) loaded_state"
    by (simp add: start_rejects_def env_ok_def)
  have n3: "\<not> start_rejects env_ok loaded_state"
    by (simp add: start_rejects_def env_ok_def loaded_state_eq)
  have t: "env_errorText (env_ok\<lparr>env_recorderConstructorThrows := True\<rparr>) = js ''NotSupportedError''"
    by (simp add: env_ok_def)
  have j: "js ''Could not start recording. '' @ js ''NotSupportedError''
             = js ''Could not start recording. NotSupportedError''"
    by (simp add: js_def)
  from startRecording_failure [OF c a, of "env_ok\<lparr>env_recorderConstructorThrows := True\<rparr>"] n1
  obtain s1 where "startRecording (env_ok\<lparr>env_recorderConstructorThrows := True\<rparr>) loaded_state
        = Returned s1" "recordingPhase s1 = idle"
      "alerts s1 = [js ''Could not start recording. NotSupportedError'']"
    using i l t j by auto
  moreover from startRecording_failure [OF c a, of "env_ok\<lparr>env_captureStreamThrows := True\<rparr>"] r2
  obtain s2 where "startRecording (env_ok\<lparr>env_captureStreamThrows := True\<rparr>) loaded_state
        = Rejected s2" "recordingPhase s2 = idle"
    using i by auto
  moreover from startRecording_failure [OF c a, of env_ok] n3
  obtain s3 where "startRecording env_ok loaded_state = Returned s3" "recordingPhase s3 = intro"
    by (auto simp: env_ok_def)
  ultimately show ?thesis using c a n1 r2 by simp
qed

text \<open>
  When \<open>resume\<close> rejects, the rejection is caught and logged, no alert is shown, and
  the recording starts: the phase becomes \<open>intro\<close>.
\<close>

theorem startRecording_resume_counterexample:
  "canvasRef loaded_state \<and> audioRef loaded_state \<and> recordingPhase loaded_state = idle
   \<and> audioContextRef (outcome_state (ensureAudioContext (env_ok\<lparr>env_resumeRejects := True\<rparr>)
        loaded_state)) = Some suspended
   \<and> recordingPhase (outcome_state
        (startRecording (env_ok\<lparr>env_resumeRejects := True\<rparr>) loaded_state)) = intro
   \<and> isRecording (outcome_state
        (startRecording (env_ok\<lparr>env_resumeRejects := True\<rparr>) loaded_state))
   \<and> consoleLog (outcome_state
        (startRecording (env_ok\<lparr>env_resumeRejects := True\<rparr>) loaded_state))
       = [js ''Could not resume audio context'']
   \<and> alerts (outcome_state
        (startRecording (env_ok\<lparr>env_resumeRejects := True\<rparr>) loaded_state)) = []"
  by (simp add: loaded_state_eq env_ok_def start_defs)

text \<open>
  After a failed recorder construction the oscillator started in step (5) is still
  referenced by \<open>silenceOscRef\<close> and running; only \<open>onstop\<close> stops it.
\<close>

lemma startRecording_leaves_oscillator:
  "\<not> silenceOscRef loaded_state
   \<and> recordingPhase (outcome_state
        (startRecording (env_ok\<lparr>env_recorderConstructorThrows := True\<rparr>) loaded_state)) = idle
   \<and> silenceOscRef (outcome_state
        (startRecording (env_ok\<lparr>env_recorderConstructorThrows := True\<rparr>) loaded_state))"
  by (simp add: loaded_state_eq env_ok_def start_defs)

lemma resumeIfSuspended_settled:
  "resumeIfSuspended env s
     = Returned (if audioContextRef s = Some suspended then resumeSettled env s else s)"
  by (simp add: resumeIfSuspended_def resumeSettled_def)

lemma startRecording_split:
  "startRecording env s =
     (if \<not> canvasRef s \<or> \<not> audioRef s then Returned s
      else and_then (ensureAudioContext env s)
             (\<lambda>s1. startRecording_after env
                     (if audioContextRef s1 = Some suspended then resumeSettled env s1 else s1)))"
proof (cases "ensureAudioContext env s")
  case (Returned s1)
  then show ?thesis
    by (simp add: startRecording_def startRecording_after_def resumeIfSuspended_settled)
next
  case (Rejected s1)
  then show ?thesis by (simp add: startRecording_def)
qed

text \<open>
  A click whose call is resumed before any other handler runs is the call
  \<open>startRecording\<close> from start to end.
\<close>

lemma startRecording_uninterrupted:
  assumes "awaitingResume c = 0"
  shows "app (startRecording_resumed env (startRecording_begin env c))
           = outcome_state (startRecording env (app c))"
proof (cases "\<not> canvasRef (app c) \<or> \<not> audioRef (app c)")
  case True
  then show ?thesis
    using assms by (auto simp: startRecording_begin_def startRecording_resumed_def startRecording_split)
next
  case False
  show ?thesis
  proof (cases "ensureAudioContext env (app c)")
    case (Rejected s1)
    with False assms show ?thesis
      by (simp add: startRecording_begin_def startRecording_resumed_def startRecording_split)
  next
    case (Returned s1)
    with False assms show ?thesis
      by (simp add: startRecording_begin_def startRecording_resumed_def startRecording_split)
  qed
qed

lemma recordButton_noop:
  "isRecording (app c) \<or> falsy (media_audioUrl (app c)) \<or> media_lyrics (app c) = [] \<Longrightarrow>
   recordButton_click env c = c"
  by (auto simp: recordButton_click_def)

lemma phase_flag_frame:
  "controller_frame s s' \<Longrightarrow> isRecording s = (recordingPhase s \<noteq> idle) \<Longrightarrow>
   isRecording s' = (recordingPhase s' \<noteq> idle)"
  by (simp add: controller_frame_def)

lemma startCapture_phase_flag:
  "isRecording s = (recordingPhase s \<noteq> idle) \<Longrightarrow>
   isRecording (outcome_state (startCapture env s))
     = (recordingPhase (outcome_state (startCapture env s)) \<noteq> idle)"
  by (simp add: startCapture_def recordingError_def Let_def)

lemma startRecording_after_phase_flag:
  assumes "isRecording s = (recordingPhase s \<noteq> idle)"
  shows "isRecording (outcome_state (startRecording_after env s))
           = (recordingPhase (outcome_state (startRecording_after env s)) \<noteq> idle)"
proof -
  let ?r = "and_then (and_then (and_then (ensureDestination env s) (connectAudioElement env))
              (startSilence env)) (setupStream env)"
  have f: "controller_frame s (outcome_state ?r)"
    by (intro and_then_frame frame_ensureDestination frame_connectAudioElement
        frame_startSilence frame_setupStream)
  have e: "startRecording_after env s = and_then ?r (startCapture env)"
    by (simp add: startRecording_after_def)
  show ?thesis
  proof (cases ?r)
    case (Rejected s1)
    with f e assms show ?thesis using phase_flag_frame [of s s1] by simp
  next
    case (Returned s1)
    with f assms have "isRecording s1 = (recordingPhase s1 \<noteq> idle)"
      using phase_flag_frame [of s s1] by simp
    with Returned e show ?thesis using startCapture_phase_flag [of s1 env] by simp
  qed
qed

lemma step_phase_flag:
  assumes "isRecording (app c) = (recordingPhase (app c) \<noteq> idle)"
  shows "isRecording (app (step e c)) = (recordingPhase (app (step e c)) \<noteq> idle)"
proof (cases e)
  case (ClickRecord env)
  show ?thesis
  proof (cases "ensureAudioContext env (app c)")
    case (Rejected s1)
    then have "controller_frame (app c) s1"
      using frame_ensureAudioContext [of "app c" env] by simp
    with assms have "isRecording s1 = (recordingPhase s1 \<noteq> idle)" by (rule phase_flag_frame [rotated])
    with assms ClickRecord Rejected show ?thesis
      by (simp add: recordButton_click_def startRecording_begin_def)
  next
    case (Returned s1)
    then have "controller_frame (app c) s1"
      using frame_ensureAudioContext [of "app c" env] by simp
    with assms have i: "isRecording s1 = (recordingPhase s1 \<noteq> idle)"
      by (rule phase_flag_frame [rotated])
    with assms ClickRecord Returned startRecording_after_phase_flag [OF i, of env] show ?thesis
      by (simp add: recordButton_click_def startRecording_begin_def)
  qed
next
  case (ResumeSettled env)
  have "isRecording (resumeSettled env (app c))
          = (recordingPhase (resumeSettled env (app c)) \<noteq> idle)"
    using assms by (simp add: resumeSettled_def)
  from startRecording_after_phase_flag [OF this, of env] assms ResumeSettled show ?thesis
    by (simp add: startRecording_resumed_def)
next
  case ClickStop
  with assms show ?thesis by (simp add: stopRecording_def)
next
  case TogglePlay
  with assms show ?thesis by (simp add: togglePlay_def stopRecording_def)
next
  case AudioEnded
  with assms show ?thesis by (simp add: audio_onEnded_def stopRecording_def Let_def)
next
  case IntroElapsed
  with assms show ?thesis by (auto simp: handleIntroComplete_def Let_def)
next
  case (RecorderStopped url)
  with assms show ?thesis by (simp add: recorder_onstop_def)
next
  case (LoadAudio url)
  with assms show ?thesis by (simp add: loadAudio_def)
next
  case (LoadLyrics ls)
  with assms show ?thesis by (simp add: loadLyrics_def)
qed

text \<open>
  Also with calls that wait at the \<open>await\<close>, \<open>isRecording\<close> holds exactly when the
  phase is not \<open>idle\<close>; so a click on Record while the phase is not \<open>idle\<close> does
  nothing.
\<close>

lemma run_phase_flag: "isRecording (app (run es)) = (recordingPhase (app (run es)) \<noteq> idle)"
proof (induction es rule: rev_induct)
  case Nil
  show ?case by (simp add: run_def initial_state_def)
next
  case (snoc e es)
  have "run (es @ [e]) = step e (run es)" by (simp add: run_def)
  with step_phase_flag [OF snoc.IH, of e] show ?case by simp
qed

lemma recordButton_noop_outside_idle:
  "recordingPhase (app (run es)) \<noteq> idle \<Longrightarrow> recordButton_click env (run es) = run es"
  using run_phase_flag [of es] by (simp add: recordButton_noop)

lemma run_snoc: "run (es @ [e]) = step e (run es)"
  by (simp add: run_def)

lemma run_load_events: "run load_events = \<lparr>app = loaded_state, awaitingResume = 0\<rparr>"
  by (simp add: run_def load_events_def loaded_state_def)

lemma first_click:
  "run (load_events @ [ClickRecord env_ok])
     = \<lparr>app = loaded_state\<lparr>audioContextRef := Some suspended\<rparr>, awaitingResume = 1\<rparr>"
  unfolding run_snoc run_load_events
  by (simp add: recordButton_click_def startRecording_begin_def falsy_def ensureAudioContext_def
      env_ok_def loaded_state_eq js_def)

lemma second_click:
  "run (load_events @ [ClickRecord env_ok, ClickRecord env_ok])
     = \<lparr>app = loaded_state\<lparr>audioContextRef := Some suspended\<rparr>, awaitingResume = 2\<rparr>"
proof -
  have "run (load_events @ [ClickRecord env_ok, ClickRecord env_ok])
          = step (ClickRecord env_ok) (run (load_events @ [ClickRecord env_ok]))"
    using run_snoc [of "load_events @ [ClickRecord env_ok]" "ClickRecord env_ok"] by simp
  then show ?thesis
    unfolding first_click
    by (simp add: recordButton_click_def startRecording_begin_def falsy_def
        ensureAudioContext_def env_ok_def loaded_state_eq js_def)
qed

lemma first_resumed:
  "app (run (load_events @ [ClickRecord env_ok, ClickRecord env_ok, ResumeSettled env_ok]))
     = loaded_state\<lparr>audioContextRef := Some running, audioDestNodeRef := True,
         audioSourceNodeRef := True, silenceOscRef := True, mediaRecorderRef := Some active,
         isRecording := True, introStartTimeRef := 1000, recordingPhase := intro\<rparr>
   \<and> awaitingResume
         (run (load_events @ [ClickRecord env_ok, ClickRecord env_ok, ResumeSettled env_ok])) = 1"
proof -
  have "run (load_events @ [ClickRecord env_ok, ClickRecord env_ok, ResumeSettled env_ok])
          = step (ResumeSettled env_ok) (run (load_events @ [ClickRecord env_ok, ClickRecord env_ok]))"
    using run_snoc [of "load_events @ [ClickRecord env_ok, ClickRecord env_ok]" "ResumeSettled env_ok"]
    by simp
  then show ?thesis
    unfolding second_click
    by (simp add: startRecording_resumed_def startRecording_after_def resumeSettled_def
        env_ok_def loaded_state_eq start_defs)
qed

text \<open>
  C6. Two clicks on Record that both arrive while the first call waits at
  \<open>await actx.resume()\<close>: after the first click \<open>isRecording\<close> is still false and the
  phase is still \<open>idle\<close>, so the button accepts the second click; when both calls go
  on, each constructs and starts a recorder, and two recorders are recording at once,
  the first of them and its oscillator out of reach of the refs.
\<close>

theorem startRecording_double_click:
  "\<not> isRecording (app (run (load_events @ [ClickRecord env_ok])))
   \<and> recordingPhase (app (run (load_events @ [ClickRecord env_ok]))) = idle
   \<and> awaitingResume (run (load_events @ [ClickRecord env_ok])) = 1
   \<and> awaitingResume (run (load_events @ [ClickRecord env_ok, ClickRecord env_ok])) = 2
   \<and> activeRecorders
        (app (run (load_events @ [ClickRecord env_ok, ClickRecord env_ok, ResumeSettled env_ok])))
       = 1
   \<and> activeRecorders (app (run double_click_events)) = 2
   \<and> orphanRecorders (app (run double_click_events)) = 1
   \<and> orphanOscillators (app (run double_click_events)) = 1
   \<and> recordingPhase (app (run double_click_events)) = intro"
proof -
  let ?three = "load_events @ [ClickRecord env_ok, ClickRecord env_ok, ResumeSettled env_ok]"
  have a: "\<not> isRecording (app (run (load_events @ [ClickRecord env_ok])))"
    and b: "recordingPhase (app (run (load_events @ [ClickRecord env_ok]))) = idle"
    and c: "awaitingResume (run (load_events @ [ClickRecord env_ok])) = 1"
    unfolding first_click by (simp_all add: loaded_state_eq)
  have d: "awaitingResume (run (load_events @ [ClickRecord env_ok, ClickRecord env_ok])) = 2"
    unfolding second_click by simp
  have e: "activeRecorders (app (run ?three)) = 1"
    using first_resumed by (simp add: activeRecorders_def loaded_state_eq)
  have "run double_click_events = step (ResumeSettled env_ok) (run ?three)"
    using run_snoc [of ?three "ResumeSettled env_ok"] by (simp add: double_click_events_def)
  then have f: "activeRecorders (app (run double_click_events)) = 2
      \<and> orphanRecorders (app (run double_click_events)) = 1
      \<and> orphanOscillators (app (run double_click_events)) = 1
      \<and> recordingPhase (app (run double_click_events)) = intro"
    using first_resumed
    by (simp add: startRecording_resumed_def startRecording_after_def resumeSettled_def
        activeRecorders_def env_ok_def loaded_state_eq start_defs)
  from a b c d e f show ?thesis by blast
qed

text \<open>
  When the new audio context is running, the call does not wait: the first click runs
  to its end and sets \<open>isRecording\<close>, and a second click does nothing.
\<close>

lemma no_await_single_recorder:
  "activeRecorders (app (run (load_events @
      [ClickRecord (env_ok\<lparr>env_newAudioContext := Some running\<rparr>),
       ClickRecord (env_ok\<lparr>env_newAudioContext := Some running\<rparr>)]))) = 1
   \<and> awaitingResume (run (load_events @
      [ClickRecord (env_ok\<lparr>env_newAudioContext := Some running\<rparr>),
       ClickRecord (env_ok\<lparr>env_newAudioContext := Some running\<rparr>)])) = 0"
proof -
  let ?env = "env_ok\<lparr>env_newAudioContext := Some running\<rparr>"
  have one: "run (load_events @ [ClickRecord ?env])
      = \<lparr>app = loaded_state\<lparr>audioContextRef := Some running, audioDestNodeRef := True,
         audioSourceNodeRef := True, silenceOscRef := True, mediaRecorderRef := Some active,
         isRecording := True, introStartTimeRef := 1000, recordingPhase := intro\<rparr>,
         awaitingResume = 0\<rparr>"
    unfolding run_snoc run_load_events
    by (simp add: recordButton_click_def startRecording_begin_def falsy_def
        startRecording_after_def env_ok_def loaded_state_eq start_defs js_def)
  have "run (load_events @ [ClickRecord ?env, ClickRecord ?env])
      = step (ClickRecord ?env) (run (load_events @ [ClickRecord ?env]))"
    using run_snoc [of "load_events @ [ClickRecord ?env]" "ClickRecord ?env"] by simp
  then show ?thesis
    unfolding one by (simp add: recordButton_click_def activeRecorders_def loaded_state_eq)
qed

end
